theory Spec2Isabelle
  imports Main
begin

section \<open>Data model of the game server (src/index.js)\<close>

text \<open>
  The server keeps one JavaScript object per game in the map \<open>activeGames\<close>.  The
  arrays \<open>words\<close> and \<open>colors\<close> come from the client as JSON arrays of strings and are
  never written to.  The array \<open>revealed\<close> is written to by index, and JavaScript
  extends an array that is written beyond its end, leaving holes; reading a hole or
  an index beyond the end gives \<open>undefined\<close>.  A cell of \<open>revealed\<close> is therefore a
  boolean, the value \<open>undefined\<close>, or a hole (a JSON \<open>null\<close> sent by a client is
  falsy like \<open>undefined\<close> and is not told apart from it).  Card indices are natural
  numbers (array indices); timestamps (\<open>Date.now()\<close>) are natural numbers, and one
  handler invocation reads one clock value.  The rooms of socket.io, the logging
  and the hourly cleanup of idle sessions are left out.
\<close>

datatype cell = JHole | JUndefined | JBool bool

text \<open>JavaScript truthiness of a cell.\<close>

fun truthy :: "cell \<Rightarrow> bool" where
  "truthy (JBool b) = b"
| "truthy JUndefined = False"
| "truthy JHole = False"

text \<open>\<open>xs[i]\<close> read: a hole and an index out of range both read as \<open>undefined\<close>.\<close>

definition js_get :: "cell list \<Rightarrow> nat \<Rightarrow> cell" where
  "js_get xs i =
     (if i < length xs then (case xs ! i of JHole \<Rightarrow> JUndefined | c \<Rightarrow> c) else JUndefined)"

text \<open>\<open>xs[i] = v\<close> write: beyond the end the array grows, with holes in between.\<close>

definition js_set :: "cell list \<Rightarrow> nat \<Rightarrow> cell \<Rightarrow> cell list" where
  "js_set xs i v =
     (if i < length xs then xs[i := v] else xs @ replicate (i - length xs) JHole @ [v])"

text \<open>\<open>colors[i]\<close> read on an array of strings: \<open>None\<close> is \<open>undefined\<close>.\<close>

definition str_get :: "string list \<Rightarrow> nat \<Rightarrow> string option" where
  "str_get xs i = (if i < length xs then Some (xs ! i) else None)"

record remaining =
  blue :: nat
  red :: nat

record game =
  words :: "string list"
  colors :: "string list"
  revealed :: "cell list"
  currentTeam :: string
  remainingCards :: remaining
  gameOver :: bool
  winner :: "string option"
  lastActivity :: nat
  players :: "string set"

text \<open>
  The \<open>gameState\<close> object a client may send with \<open>JOIN_GAME\<close>: both fields may be
  absent (\<open>None\<close>).
\<close>

record snapshot =
  snap_revealed :: "cell list option"
  snap_currentTeam :: "string option"

datatype error = TypeError

text \<open>
  What a handler sends out: the \<open>GAME_STATE\<close> broadcast to the room of a key, the
  \<open>PLAYER_JOINED\<close> message to the other members of the room, and the calls to the
  statistics collaborator.
\<close>

datatype event =
    GAME_STATE string game
  | PLAYER_JOINED string string nat
  | Stats_addGame string
  | Stats_completeGame string

text \<open>
  The state of the process: the registry \<open>activeGames\<close>, and for every connection
  (named by its socket id) the closure variable \<open>currentGame\<close>.
\<close>

record server =
  activeGames :: "string \<rightharpoonup> game"
  currentGame :: "string \<Rightarrow> string option"

section \<open>calculateDerivedState (index.js, lines 99-112)\<close>

text \<open>\<open>Array.prototype.reduce\<close> with the index passed to the callback.\<close>

fun reduce_idx :: "(nat \<Rightarrow> 'a \<Rightarrow> nat \<Rightarrow> nat) \<Rightarrow> 'a list \<Rightarrow> nat \<Rightarrow> nat \<Rightarrow> nat" where
  "reduce_idx f [] i acc = acc"
| "reduce_idx f (c # cs) i acc = reduce_idx f cs (Suc i) (f acc c i)"

text \<open>\<open>Array.prototype.some\<close> with the index passed to the callback.\<close>

fun some_idx :: "('a \<Rightarrow> nat \<Rightarrow> bool) \<Rightarrow> 'a list \<Rightarrow> nat \<Rightarrow> bool" where
  "some_idx p [] i = False"
| "some_idx p (c # cs) i = (if p c i then True else some_idx p cs (Suc i))"

definition calculateDerivedState :: "game \<Rightarrow> game" where
  "calculateDerivedState game =
     (let remainingCards' = \<lparr>
            blue = reduce_idx
              (\<lambda>sum c i. sum + (if c = ''blue'' \<and> \<not> truthy (js_get (revealed game) i) then 1 else 0))
              (colors game) 0 0,
            red = reduce_idx
              (\<lambda>sum c i. sum + (if c = ''red'' \<and> \<not> truthy (js_get (revealed game) i) then 1 else 0))
              (colors game) 0 0 \<rparr>;
          isBlackRevealed =
            some_idx (\<lambda>c i. c = ''black'' \<and> truthy (js_get (revealed game) i)) (colors game) 0;
          isBlueWin = (blue remainingCards' = 0);
          isRedWin = (red remainingCards' = 0);
          gameOver' = (isBlackRevealed \<or> isBlueWin \<or> isRedWin);
          winner' = (if isBlackRevealed then Some ''assassin''
                     else if isBlueWin then Some ''blue''
                     else if isRedWin then Some ''red'' else None)
      in game\<lparr>remainingCards := remainingCards', gameOver := gameOver', winner := winner'\<rparr>)"

section \<open>mergeGameStates (lines 114-118)\<close>

text \<open>
  The callback of \<open>baseState.revealed.map\<close>: \<open>isRevealed || newState.revealed[index]\<close>.
  \<open>map\<close> does not call it on a hole and leaves the hole in place.  The right operand
  is only evaluated when the left one is falsy, and reading an index of an absent
  \<open>newState.revealed\<close> throws a TypeError.
\<close>

definition merge_cell :: "cell list option \<Rightarrow> cell \<Rightarrow> nat \<Rightarrow> error + cell" where
  "merge_cell incoming isRevealed index =
     (if isRevealed = JHole then Inr JHole
      else if truthy isRevealed then Inr isRevealed
      else (case incoming of None \<Rightarrow> Inl TypeError | Some r \<Rightarrow> Inr (js_get r index)))"

fun merge_cells :: "cell list option \<Rightarrow> cell list \<Rightarrow> nat \<Rightarrow> error + cell list" where
  "merge_cells incoming [] i = Inr []"
| "merge_cells incoming (c # cs) i =
     (case merge_cell incoming c i of
        Inl e \<Rightarrow> Inl e
      | Inr c' \<Rightarrow> (case merge_cells incoming cs (Suc i) of
                     Inl e \<Rightarrow> Inl e
                   | Inr cs' \<Rightarrow> Inr (c' # cs')))"

text \<open>
  The result is the incoming snapshot itself when there is no base state
  (\<open>Inr (Inl newState)\<close>), and otherwise a copy of the base state with the merged
  array (\<open>Inr (Inr merged)\<close>).
\<close>

definition mergeGameStates :: "game option \<Rightarrow> snapshot \<Rightarrow> error + (snapshot + game)" where
  "mergeGameStates baseState newState =
     (case baseState of
        None \<Rightarrow> Inr (Inl newState)
      | Some base \<Rightarrow>
          (case merge_cells (snap_revealed newState) (revealed base) 0 of
             Inl e \<Rightarrow> Inl e
           | Inr revealed' \<Rightarrow> Inr (Inr (base\<lparr>revealed := revealed'\<rparr>))))"

section \<open>createNewGameState (lines 120-140)\<close>

text \<open>
  \<open>savedState.revealed || game.revealed\<close>: an array is truthy, an absent field is not.
  \<open>savedState.currentTeam || game.currentTeam\<close>: the empty string is falsy.
\<close>

definition createNewGameState ::
  "nat \<Rightarrow> string \<Rightarrow> string list \<Rightarrow> string list \<Rightarrow> snapshot option \<Rightarrow> game" where
  "createNewGameState now gameKey words' colors' savedState =
     (let game = \<lparr> words = words', colors = colors',
                   revealed = replicate 25 (JBool False),
                   currentTeam = ''blue'',
                   remainingCards = \<lparr> blue = 0, red = 0 \<rparr>,
                   gameOver = False, winner = None,
                   lastActivity = now, players = {} \<rparr>;
          game1 = (case savedState of
                     None \<Rightarrow> game
                   | Some saved \<Rightarrow>
                       game\<lparr> revealed := (case snap_revealed saved of
                                            Some r \<Rightarrow> r | None \<Rightarrow> revealed game),
                             currentTeam := (case snap_currentTeam saved of
                                               Some t \<Rightarrow> if t \<noteq> [] then t else currentTeam game
                                             | None \<Rightarrow> currentTeam game) \<rparr>)
      in calculateDerivedState game1)"

section \<open>The connection handlers (lines 142-279)\<close>

text \<open>\<open>leaveCurrentGame\<close> (lines 147-159); \<open>if (currentGame)\<close> is false for the empty key.\<close>

definition leaveCurrentGame :: "nat \<Rightarrow> string \<Rightarrow> server \<Rightarrow> server" where
  "leaveCurrentGame now sid s =
     (case currentGame s sid of
        None \<Rightarrow> s
      | Some key \<Rightarrow>
          if key = [] then s
          else
            (let s1 = (case activeGames s key of
                         None \<Rightarrow> s
                       | Some game \<Rightarrow>
                           (let g1 = game\<lparr>players := players game - {sid}\<rparr>;
                                g2 = (if players g1 = {} then g1\<lparr>lastActivity := now\<rparr> else g1)
                            in s\<lparr>activeGames := (activeGames s)(key \<mapsto> g2)\<rparr>))
             in s1\<lparr>currentGame := (currentGame s1)(sid := None)\<rparr>))"

text \<open>
  The block \<open>if (gameState) { ... }\<close> of \<open>JOIN_GAME\<close> (lines 180-185): the merged
  array is stored in the session and the derived fields are recomputed.  An
  exception thrown by the merge leaves the handler (\<open>Inl\<close>).
\<close>

definition merge_incoming :: "game \<Rightarrow> snapshot option \<Rightarrow> error + game" where
  "merge_incoming game gameState =
     (case gameState of
        None \<Rightarrow> Inr game
      | Some st \<Rightarrow>
          (case mergeGameStates (Some game) st of
             Inl e \<Rightarrow> Inl e
           | Inr (Inr merged) \<Rightarrow>
               Inr (calculateDerivedState (game\<lparr>revealed := revealed merged\<rparr>))
           | Inr (Inl st') \<Rightarrow>
               \<comment> \<open>not reached: the base state is present\<close>
               (case snap_revealed st' of
                  None \<Rightarrow> Inl TypeError
                | Some r \<Rightarrow> Inr (calculateDerivedState (game\<lparr>revealed := r\<rparr>)))))"

text \<open>
  \<open>JOIN_GAME\<close> (lines 161-207).  \<open>words\<close>, \<open>colors\<close> and \<open>gameState\<close> may be absent.
\<close>

definition JOIN_GAME ::
  "nat \<Rightarrow> string \<Rightarrow> string \<Rightarrow> string list option \<Rightarrow> string list option \<Rightarrow> snapshot option
     \<Rightarrow> server \<Rightarrow> error + (server \<times> event list)" where
  "JOIN_GAME now sid gameKey words' colors' gameState s0 =
     (let s1 = leaveCurrentGame now sid s0;
          found = activeGames s1 gameKey;
          created = (case (found, words', colors') of
                       (None, Some ws, Some cs) \<Rightarrow>
                          Some (createNewGameState now gameKey ws cs gameState)
                     | _ \<Rightarrow> None);
          s2 = (case created of
                  Some g \<Rightarrow> s1\<lparr>activeGames := (activeGames s1)(gameKey \<mapsto> g)\<rparr>
                | None \<Rightarrow> s1);
          ev1 = (case created of Some g \<Rightarrow> [Stats_addGame gameKey] | None \<Rightarrow> []);
          game' = (case created of Some g \<Rightarrow> Some g | None \<Rightarrow> found)
      in case game' of
           None \<Rightarrow> Inr (s2, ev1)
         | Some game \<Rightarrow>
             (case merge_incoming game gameState of
                Inl e \<Rightarrow> Inl e
              | Inr g1 \<Rightarrow>
                  (let g2 = g1\<lparr>players := insert sid (players g1), lastActivity := now\<rparr>
                   in Inr (s2\<lparr>activeGames := (activeGames s2)(gameKey \<mapsto> g2),
                              currentGame := (currentGame s2)(sid := Some gameKey)\<rparr>,
                           ev1 @ [GAME_STATE gameKey g2,
                                  PLAYER_JOINED gameKey sid (card (players g2))]))))"

text \<open>
  \<open>NEW_GAME\<close> (lines 209-228).  Absent \<open>words\<close> or \<open>colors\<close> take the default \<open>[]\<close> of
  \<open>createNewGameState\<close>.
\<close>

definition NEW_GAME ::
  "nat \<Rightarrow> string \<Rightarrow> string \<Rightarrow> string list option \<Rightarrow> string list option
     \<Rightarrow> server \<Rightarrow> server \<times> event list" where
  "NEW_GAME now sid gameKey words' colors' s0 =
     (let s1 = leaveCurrentGame now sid s0;
          game = createNewGameState now gameKey
                   (case words' of None \<Rightarrow> [] | Some ws \<Rightarrow> ws)
                   (case colors' of None \<Rightarrow> [] | Some cs \<Rightarrow> cs) None;
          game' = game\<lparr>players := insert sid (players game)\<rparr>
      in (s1\<lparr>activeGames := (activeGames s1)(gameKey \<mapsto> game'),
              currentGame := (currentGame s1)(sid := Some gameKey)\<rparr>,
          [Stats_addGame gameKey, GAME_STATE gameKey game']))"

text \<open>
  The mutation of a \<open>REVEAL_CARD\<close> that has passed the guards (lines 250-262): the
  cell is set, the clock is read, the turn is switched unless the card has the
  colour of the current team and is not neutral, and the derived fields are
  recomputed.  \<open>colors[cardIndex]\<close> out of range is \<open>undefined\<close>, which differs from
  every team.
\<close>

definition reveal_update :: "nat \<Rightarrow> nat \<Rightarrow> game \<Rightarrow> game" where
  "reveal_update now cardIndex game =
     (let g1 = game\<lparr>revealed := js_set (revealed game) cardIndex (JBool True),
                    lastActivity := now\<rparr>;
          cardColor = str_get (colors g1) cardIndex;
          g2 = (if cardColor \<noteq> Some (currentTeam g1) \<or> cardColor = Some ''neutral''
                then g1\<lparr>currentTeam := (if currentTeam g1 = ''blue'' then ''red'' else ''blue'')\<rparr>
                else g1)
      in calculateDerivedState g2)"

text \<open>\<open>REVEAL_CARD\<close> (lines 230-273).\<close>

definition REVEAL_CARD :: "nat \<Rightarrow> string \<Rightarrow> string \<Rightarrow> nat \<Rightarrow> server \<Rightarrow> server \<times> event list" where
  "REVEAL_CARD now sid gameKey cardIndex s =
     (if currentGame s sid \<noteq> Some gameKey then (s, [])
      else
        (case activeGames s gameKey of
           None \<Rightarrow> (s, [])
         | Some game \<Rightarrow>
             if truthy (js_get (revealed game) cardIndex) then (s, [])
             else
               (let game' = reveal_update now cardIndex game
                in (s\<lparr>activeGames := (activeGames s)(gameKey \<mapsto> game')\<rparr>,
                    (if gameOver game' \<and> winner game' \<noteq> None
                     then [Stats_completeGame gameKey] else [])
                    @ [GAME_STATE gameKey game']))))"

text \<open>\<open>disconnect\<close> (lines 275-278).\<close>

definition disconnect :: "nat \<Rightarrow> string \<Rightarrow> server \<Rightarrow> server \<times> event list" where
  "disconnect now sid s = (leaveCurrentGame now sid s, [])"

text \<open>
  The event loop: every inbound message is handled to completion before the next
  one; an uncaught exception ends the run.
\<close>

datatype command =
    Join string "string list option" "string list option" "snapshot option"
  | New string "string list option" "string list option"
  | Reveal string nat
  | Disconnect

fun handle :: "nat \<Rightarrow> string \<Rightarrow> command \<Rightarrow> server \<Rightarrow> error + (server \<times> event list)" where
  "handle now sid (Join k ws cs st) s = JOIN_GAME now sid k ws cs st s"
| "handle now sid (New k ws cs) s = Inr (NEW_GAME now sid k ws cs s)"
| "handle now sid (Reveal k i) s = Inr (REVEAL_CARD now sid k i s)"
| "handle now sid Disconnect s = Inr (disconnect now sid s)"

fun run :: "(nat \<times> string \<times> command) list \<Rightarrow> server \<Rightarrow> error + (server \<times> event list)" where
  "run [] s = Inr (s, [])"
| "run ((now, sid, c) # cs) s =
     (case handle now sid c s of
        Inl e \<Rightarrow> Inl e
      | Inr (s1, ev1) \<Rightarrow>
          (case run cs s1 of
             Inl e \<Rightarrow> Inl e
           | Inr (s2, ev2) \<Rightarrow> Inr (s2, ev1 @ ev2)))"

section \<open>Predicates of the statements\<close>

text \<open>
  The stored derived fields of a session are those that \<open>calculateDerivedState\<close>
  computes from its board and reveal flags.
\<close>

definition derived_in_step :: "game \<Rightarrow> bool" where
  "derived_in_step g \<longleftrightarrow>
     remainingCards g = remainingCards (calculateDerivedState g)
     \<and> gameOver g = gameOver (calculateDerivedState g)
     \<and> winner g = winner (calculateDerivedState g)"

text \<open>Every session of the registry is in step.\<close>

definition registry_in_step :: "server \<Rightarrow> bool" where
  "registry_in_step s \<longleftrightarrow> (\<forall>k g. activeGames s k = Some g \<longrightarrow> derived_in_step g)"

text \<open>The session under key \<open>k\<close> exists and its cell \<open>j\<close> is \<open>true\<close>.\<close>

definition holds_true :: "server \<Rightarrow> string \<Rightarrow> nat \<Rightarrow> bool" where
  "holds_true s k j \<longleftrightarrow>
     (case activeGames s k of None \<Rightarrow> False | Some g \<Rightarrow> js_get (revealed g) j = JBool True)"

text \<open>The command is a \<open>NEW_GAME\<close>.\<close>

fun is_New :: "command \<Rightarrow> bool" where
  "is_New (New k ws cs) = True"
| "is_New c = False"

text \<open>
  The \<open>OR(A, B)\<close> of the specification, which the source does not define: the
  elementwise disjunction of two lists of reveal flags.
\<close>

definition flags_or :: "bool list \<Rightarrow> bool list \<Rightarrow> bool list" where
  "flags_or a b = map2 (\<or>) a b"

section \<open>Concrete sessions used to exercise the theorems\<close>

text \<open>A board of 9 blue, 8 red and 7 neutral cards and the assassin (\<open>black\<close>).\<close>

definition board0 :: "string list" where
  "board0 = [''blue'', ''blue'', ''blue'', ''blue'', ''blue'', ''blue'', ''blue'', ''blue'', ''blue'',
             ''red'', ''red'', ''red'', ''red'', ''red'', ''red'', ''red'', ''red'',
             ''neutral'', ''neutral'', ''neutral'', ''neutral'', ''neutral'', ''neutral'', ''neutral'',
             ''black'']"

text \<open>Reveal flags: every red card and the assassin; and cards 0 and 9.\<close>

definition flags1 :: "bool list" where
  "flags1 = [False, False, False, False, False, False, False, False, False,
             True, True, True, True, True, True, True, True,
             False, False, False, False, False, False, False,
             True]"

definition flags2 :: "bool list" where
  "flags2 = [True, False, False, False, False, False, False, False, False,
             True, False, False, False, False, False, False, False,
             False, False, False, False, False, False, False,
             False]"

text \<open>A session with the flags \<open>flags1\<close> whose derived fields are still to be computed.\<close>

definition game1 :: game where
  "game1 = \<lparr> words = replicate 25 ''word'', colors = board0, revealed = map JBool flags1,
             currentTeam = ''red'', remainingCards = \<lparr> blue = 0, red = 0 \<rparr>,
             gameOver = False, winner = None, lastActivity = 1, players = {} \<rparr>"

text \<open>A session whose \<open>revealed\<close> has grown beyond the board and has a hole.\<close>

definition game_holes :: game where
  "game_holes = game1\<lparr>revealed := replicate 25 (JBool False) @ [JHole, JBool True]\<rparr>"

text \<open>
  The process after start (\<open>server0\<close>); after connection \<open>s1\<close> has sent \<open>NEW_GAME\<close> for
  key \<open>K\<close> at time 1 (\<open>server1\<close>, with the session \<open>fresh1\<close>); after \<open>s1\<close> has then
  revealed the red card 9 (\<open>server2\<close>); and after \<open>s1\<close> has instead revealed the
  assassin, card 24 (\<open>server3\<close>, with the completed session \<open>over3\<close>).
\<close>

definition server0 :: server where
  "server0 = \<lparr> activeGames = Map.empty, currentGame = (\<lambda>sid. None) \<rparr>"

definition server1 :: server where
  "server1 = fst (NEW_GAME 1 ''s1'' ''K'' (Some (replicate 25 ''word'')) (Some board0) server0)"

definition fresh1 :: game where
  "fresh1 = (createNewGameState 1 ''K'' (replicate 25 ''word'') board0 None)\<lparr>players := {''s1''}\<rparr>"

definition server2 :: server where
  "server2 = fst (REVEAL_CARD 2 ''s1'' ''K'' 9 server1)"

definition server3 :: server where
  "server3 = fst (REVEAL_CARD 3 ''s1'' ''K'' 24 server1)"

definition over3 :: game where
  "over3 = reveal_update 3 24 fresh1"

text \<open>The fresh session with two connections attached.\<close>

definition two_players :: server where
  "two_players = \<lparr> activeGames = [''K'' \<mapsto> fresh1\<lparr>players := {''s1'', ''s2''}\<rparr>],
                    currentGame = (\<lambda>sid. if sid = ''s1'' \<or> sid = ''s2'' then Some ''K'' else None) \<rparr>"

text \<open>
  Snapshots as a client sends them in \<open>gameState\<close>: no card revealed and team red;
  the flags \<open>flags2\<close> and team blue; the flags \<open>a\<close> and no team.
\<close>

definition snap_none :: snapshot where
  "snap_none = \<lparr> snap_revealed = Some (replicate 25 (JBool False)), snap_currentTeam = Some ''red'' \<rparr>"

definition snap_blue :: snapshot where
  "snap_blue = \<lparr> snap_revealed = Some (map JBool flags2), snap_currentTeam = Some ''blue'' \<rparr>"

definition snapshot_of :: "bool list \<Rightarrow> snapshot" where
  "snapshot_of a = \<lparr> snap_revealed = Some (map JBool a), snap_currentTeam = None \<rparr>"

text \<open>
  Message sequences: a second connection joins \<open>K\<close> with the snapshot \<open>snap_none\<close> and
  the first reveals card 0 (\<open>cmds2\<close>, run from \<open>server2\<close>); the same after a
  \<open>NEW_GAME\<close> and a reveal of card 9 (\<open>cmds4\<close>, run from \<open>server0\<close>).
\<close>

definition cmds2 :: "(nat \<times> string \<times> command) list" where
  "cmds2 = [(3, ''s2'', Join ''K'' None None (Some snap_none)), (4, ''s1'', Reveal ''K'' 0)]"

definition cmds4 :: "(nat \<times> string \<times> command) list" where
  "cmds4 = (1, ''s1'', New ''K'' (Some (replicate 25 ''word'')) (Some board0))
           # (2, ''s1'', Reveal ''K'' 9) # cmds2"

section \<open>The derived state\<close>

lemma upt_Suc_shift: "[0..<Suc n] = 0 # map Suc [0..<n]"
  by (simp add: upt_conv_Cons map_Suc_upt del: upt_Suc)

text \<open>The counting \<open>reduce\<close> counts the indices at which the callback adds one.\<close>

lemma reduce_idx_count:
  "reduce_idx (\<lambda>sum c i. sum + (if P c i then 1 else 0)) cs i acc
     = acc + length (filter (\<lambda>j. P (cs ! j) (i + j)) [0..<length cs])"
proof (induction cs arbitrary: i acc)
  case Nil
  show ?case by simp
next
  case (Cons c cs)
  have "length (filter (\<lambda>j. P ((c # cs) ! j) (i + j)) [0..<length (c # cs)])
          = (if P c i then 1 else 0) + length (filter (\<lambda>j. P (cs ! j) (Suc i + j)) [0..<length cs])"
    by (simp add: upt_Suc_shift filter_map comp_def del: upt_Suc)
  then show ?case using Cons.IH [of "Suc i"] by simp
qed

lemma some_idx_ex:
  "some_idx p cs i = (\<exists>j<length cs. p (cs ! j) (i + j))"
proof (induction cs arbitrary: i)
  case Nil
  show ?case by simp
next
  case (Cons c cs)
  show ?case using Cons.IH [of "Suc i"]
    by (auto simp: less_Suc_eq_0_disj)
qed

lemma js_get_map_JBool: "i < length rs \<Longrightarrow> js_get (map JBool rs) i = JBool (rs ! i)"
  by (simp add: js_get_def)

lemma filter_upt_cong:
  "(\<And>j. j < n \<Longrightarrow> P j = Q j) \<Longrightarrow> filter P [0..<n] = filter Q [0..<n]"
  by (rule filter_cong) auto

lemma remaining_blue:
  "blue (remainingCards (calculateDerivedState g))
     = length (filter (\<lambda>i. colors g ! i = ''blue'' \<and> \<not> truthy (js_get (revealed g) i))
                [0..<length (colors g)])"
  by (simp add: calculateDerivedState_def Let_def reduce_idx_count)

lemma remaining_red:
  "red (remainingCards (calculateDerivedState g))
     = length (filter (\<lambda>i. colors g ! i = ''red'' \<and> \<not> truthy (js_get (revealed g) i))
                [0..<length (colors g)])"
  by (simp add: calculateDerivedState_def Let_def reduce_idx_count)

lemma winner_calc:
  "winner (calculateDerivedState g)
     = (if (\<exists>i<length (colors g). colors g ! i = ''black'' \<and> truthy (js_get (revealed g) i))
        then Some ''assassin''
        else if blue (remainingCards (calculateDerivedState g)) = 0 then Some ''blue''
        else if red (remainingCards (calculateDerivedState g)) = 0 then Some ''red'' else None)"
  by (auto simp: calculateDerivedState_def Let_def some_idx_ex)

lemma gameOver_calc:
  "gameOver (calculateDerivedState g) = (winner (calculateDerivedState g) \<noteq> None)"
  by (simp add: calculateDerivedState_def Let_def)

text \<open>
  Claim C1.  For a board of 25 colours and 25 boolean reveal flags,
  \<open>calculateDerivedState\<close> stores as remaining blue (red) count the number of indices
  whose colour is blue (red) and which are not revealed; the winner is the assassin
  if a revealed card is black, else blue if no blue card remains, else red if no red
  card remains, else absent; and \<open>gameOver\<close> holds exactly when a winner is present.
\<close>

theorem derive_counts_and_winner:
  assumes "length (colors g) = 25" and "length rs = 25" and "revealed g = map JBool rs"
  shows "blue (remainingCards (calculateDerivedState g))
           = length (filter (\<lambda>i. colors g ! i = ''blue'' \<and> \<not> rs ! i) [0..<25])
       \<and> red (remainingCards (calculateDerivedState g))
           = length (filter (\<lambda>i. colors g ! i = ''red'' \<and> \<not> rs ! i) [0..<25])
       \<and> winner (calculateDerivedState g)
           = (if (\<exists>i<25. colors g ! i = ''black'' \<and> rs ! i) then Some ''assassin''
              else if blue (remainingCards (calculateDerivedState g)) = 0 then Some ''blue''
              else if red (remainingCards (calculateDerivedState g)) = 0 then Some ''red''
              else None)
       \<and> gameOver (calculateDerivedState g) = (winner (calculateDerivedState g) \<noteq> None)"
proof -
  have get: "\<And>i. i < 25 \<Longrightarrow> truthy (js_get (revealed g) i) = rs ! i"
    using assms by (simp add: js_get_map_JBool)
  have b: "filter (\<lambda>i. colors g ! i = ''blue'' \<and> \<not> truthy (js_get (revealed g) i)) [0..<25]
             = filter (\<lambda>i. colors g ! i = ''blue'' \<and> \<not> rs ! i) [0..<25]"
    by (rule filter_upt_cong) (simp add: get)
  have r: "filter (\<lambda>i. colors g ! i = ''red'' \<and> \<not> truthy (js_get (revealed g) i)) [0..<25]
             = filter (\<lambda>i. colors g ! i = ''red'' \<and> \<not> rs ! i) [0..<25]"
    by (rule filter_upt_cong) (simp add: get)
  have k: "(\<exists>i<25. colors g ! i = ''black'' \<and> truthy (js_get (revealed g) i))
             = (\<exists>i<25. colors g ! i = ''black'' \<and> rs ! i)"
    using get by auto
  have c1: "blue (remainingCards (calculateDerivedState g))
           = length (filter (\<lambda>i. colors g ! i = ''blue'' \<and> \<not> rs ! i) [0..<25])"
    using assms(1) b by (simp add: remaining_blue)
  have c2: "red (remainingCards (calculateDerivedState g))
           = length (filter (\<lambda>i. colors g ! i = ''red'' \<and> \<not> rs ! i) [0..<25])"
    using assms(1) r by (simp add: remaining_red)
  have c3: "winner (calculateDerivedState g)
           = (if (\<exists>i<25. colors g ! i = ''black'' \<and> rs ! i) then Some ''assassin''
              else if blue (remainingCards (calculateDerivedState g)) = 0 then Some ''blue''
              else if red (remainingCards (calculateDerivedState g)) = 0 then Some ''red''
              else None)"
    using winner_calc [of g] assms(1) k by simp
  show ?thesis
    using c1 c2 c3 gameOver_calc [of g] by blast
qed

text \<open>
  On \<open>game1\<close> no red card remains and the assassin is revealed: the winner is the
  assassin, not red.
\<close>

theorem derive_counts_and_winner_witness:
  "length (colors game1) = 25 \<and> length flags1 = 25 \<and> revealed game1 = map JBool flags1
   \<and> blue (remainingCards (calculateDerivedState game1)) = 9
   \<and> red (remainingCards (calculateDerivedState game1)) = 0
   \<and> winner (calculateDerivedState game1) = Some ''assassin''
   \<and> gameOver (calculateDerivedState game1)"
proof -
  have h1: "length (colors game1) = 25" by (simp add: game1_def board0_def)
  have h2: "length flags1 = 25" by (simp add: flags1_def)
  have h3: "revealed game1 = map JBool flags1" by (simp add: game1_def)
  have e1: "length (filter (\<lambda>i. colors game1 ! i = ''blue'' \<and> \<not> flags1 ! i) [0..<25]) = 9"
    by code_simp
  have e2: "length (filter (\<lambda>i. colors game1 ! i = ''red'' \<and> \<not> flags1 ! i) [0..<25]) = 0"
    by code_simp
  have e3: "\<exists>i<25. colors game1 ! i = ''black'' \<and> flags1 ! i"
    by (rule exI [of _ 24]) (simp add: game1_def board0_def flags1_def)
  show ?thesis
    using derive_counts_and_winner [OF h1 h2 h3] h1 h2 h3 e1 e2 e3 by simp
qed

section \<open>Frame lemmas\<close>

lemma calc_frame [simp]:
  "words (calculateDerivedState g) = words g"
  "colors (calculateDerivedState g) = colors g"
  "revealed (calculateDerivedState g) = revealed g"
  "currentTeam (calculateDerivedState g) = currentTeam g"
  "lastActivity (calculateDerivedState g) = lastActivity g"
  "players (calculateDerivedState g) = players g"
  by (simp_all add: calculateDerivedState_def Let_def)

lemma reveal_update_frame [simp]:
  "words (reveal_update now i g) = words g"
  "colors (reveal_update now i g) = colors g"
  "revealed (reveal_update now i g) = js_set (revealed g) i (JBool True)"
  "lastActivity (reveal_update now i g) = now"
  "players (reveal_update now i g) = players g"
  by (simp_all add: reveal_update_def Let_def)

lemma reveal_update_team:
  "currentTeam (reveal_update now i g)
     = (if str_get (colors g) i \<noteq> Some (currentTeam g) \<or> str_get (colors g) i = Some ''neutral''
        then (if currentTeam g = ''blue'' then ''red'' else ''blue'') else currentTeam g)"
  by (simp add: reveal_update_def Let_def)

lemma createNewGameState_fields:
  "words (createNewGameState now k ws cs sv) = ws"
  "colors (createNewGameState now k ws cs sv) = cs"
  "lastActivity (createNewGameState now k ws cs sv) = now"
  "players (createNewGameState now k ws cs sv) = {}"
  "revealed (createNewGameState now k ws cs None) = replicate 25 (JBool False)"
  "currentTeam (createNewGameState now k ws cs None) = ''blue''"
  by (simp_all add: createNewGameState_def Let_def split: option.splits)

lemma REVEAL_CARD_applied:
  assumes "currentGame s sid = Some key" and "activeGames s key = Some g"
    and "\<not> truthy (js_get (revealed g) i)"
  shows "REVEAL_CARD now sid key i s
     = (s\<lparr>activeGames := (activeGames s)(key \<mapsto> reveal_update now i g)\<rparr>,
        (if gameOver (reveal_update now i g) \<and> winner (reveal_update now i g) \<noteq> None
         then [Stats_completeGame key] else []) @ [GAME_STATE key (reveal_update now i g)])"
  using assms by (simp add: REVEAL_CARD_def Let_def)

lemma server1_cur: "currentGame server1 ''s1'' = Some ''K''"
  by (simp add: server1_def server0_def NEW_GAME_def leaveCurrentGame_def Let_def)

lemma server1_games: "activeGames server1 ''K'' = Some fresh1"
  by (simp add: server1_def server0_def NEW_GAME_def leaveCurrentGame_def Let_def fresh1_def
      createNewGameState_fields)

lemma fresh1_fields:
  "colors fresh1 = board0" "revealed fresh1 = replicate 25 (JBool False)"
  "currentTeam fresh1 = ''blue''"
  by (simp_all add: fresh1_def createNewGameState_def Let_def)

lemma fresh1_not_over: "\<not> gameOver fresh1"
  by (simp add: fresh1_def createNewGameState_def calculateDerivedState_def Let_def board0_def
      js_get_def)

section \<open>The turn rule\<close>

text \<open>
  Claim C2.  For a session that is not over and a \<open>REVEAL_CARD\<close> of an index below 25
  that is not yet revealed, sent by a connection joined to that session: when the
  card has the colour of the current team (blue or red) the current team is
  unchanged; for every other colour (neutral, the other team, the assassin) the
  current team becomes the other team.
\<close>

theorem turn_switch_rule:
  assumes "currentGame s sid = Some key" and "activeGames s key = Some g"
    and "\<not> gameOver g"
    and "length (colors g) = 25" and "i < 25"
    and "\<not> truthy (js_get (revealed g) i)"
    and "currentTeam g = ''blue'' \<or> currentTeam g = ''red''"
    and "colors g ! i = ''blue'' \<or> colors g ! i = ''red''
         \<or> colors g ! i = ''neutral'' \<or> colors g ! i = ''black''"
  shows "\<exists>g'. activeGames (fst (REVEAL_CARD now sid key i s)) key = Some g'
           \<and> (colors g ! i = currentTeam g \<longrightarrow> currentTeam g' = currentTeam g)
           \<and> (colors g ! i \<noteq> currentTeam g \<longrightarrow>
                 currentTeam g' = (if currentTeam g = ''blue'' then ''red'' else ''blue'')
               \<and> currentTeam g' \<noteq> currentTeam g)"
proof -
  have c: "str_get (colors g) i = Some (colors g ! i)"
    using assms(4,5) by (simp add: str_get_def)
  have "activeGames (fst (REVEAL_CARD now sid key i s)) key = Some (reveal_update now i g)"
    using REVEAL_CARD_applied [OF assms(1,2,6)] by simp
  moreover have "colors g ! i = currentTeam g \<longrightarrow>
      currentTeam (reveal_update now i g) = currentTeam g"
    using assms(7) c by (auto simp: reveal_update_team)
  moreover have "colors g ! i \<noteq> currentTeam g \<longrightarrow>
      currentTeam (reveal_update now i g) = (if currentTeam g = ''blue'' then ''red'' else ''blue'')
      \<and> currentTeam (reveal_update now i g) \<noteq> currentTeam g"
    using assms(7) c by (auto simp: reveal_update_team)
  ultimately show ?thesis by blast
qed

text \<open>With blue to move, revealing the red card 9 of the fresh session hands the turn to red.\<close>

theorem turn_switch_rule_witness:
  "currentGame server1 ''s1'' = Some ''K'' \<and> activeGames server1 ''K'' = Some fresh1
   \<and> \<not> gameOver fresh1 \<and> length (colors fresh1) = 25 \<and> (9::nat) < 25
   \<and> \<not> truthy (js_get (revealed fresh1) 9)
   \<and> currentTeam fresh1 = ''blue'' \<and> colors fresh1 ! 9 = ''red''
   \<and> (\<exists>g'. activeGames (fst (REVEAL_CARD 2 ''s1'' ''K'' 9 server1)) ''K'' = Some g'
          \<and> currentTeam g' = ''red'')"
proof -
  have h4: "length (colors fresh1) = 25" by (simp add: fresh1_fields board0_def)
  have h5: "(9::nat) < 25" by simp
  have h6: "\<not> truthy (js_get (revealed fresh1) 9)" by (simp add: fresh1_fields js_get_def)
  have h7: "currentTeam fresh1 = ''blue'' \<or> currentTeam fresh1 = ''red''"
    by (simp add: fresh1_fields)
  have c: "colors fresh1 ! 9 = ''red''" by (simp add: fresh1_fields board0_def)
  then have h8: "colors fresh1 ! 9 = ''blue'' \<or> colors fresh1 ! 9 = ''red''
         \<or> colors fresh1 ! 9 = ''neutral'' \<or> colors fresh1 ! 9 = ''black''" by simp
  show ?thesis
    using turn_switch_rule [OF server1_cur server1_games fresh1_not_over h4 h5 h6 h7 h8, of 2]
      server1_cur server1_games fresh1_not_over h4 h6 c
    by (auto simp: fresh1_fields)
qed

section \<open>Case rules for the join\<close>

lemma JOIN_GAME_cases:
  assumes "JOIN_GAME now sid key ws cs st s = Inr (s', ev)"
  obtains
    (absent) "activeGames (leaveCurrentGame now sid s) key = None"
      and "ws = None \<or> cs = None" and "s' = leaveCurrentGame now sid s" and "ev = []"
  | (found) g g1 where "activeGames (leaveCurrentGame now sid s) key = Some g"
      and "merge_incoming g st = Inr g1"
      and "activeGames s' = (activeGames (leaveCurrentGame now sid s))
             (key \<mapsto> g1\<lparr>players := insert sid (players g1), lastActivity := now\<rparr>)"
  | (created) w c g1 where "activeGames (leaveCurrentGame now sid s) key = None"
      and "ws = Some w" and "cs = Some c"
      and "merge_incoming (createNewGameState now key w c st) st = Inr g1"
      and "activeGames s' = (activeGames (leaveCurrentGame now sid s))
             (key \<mapsto> g1\<lparr>players := insert sid (players g1), lastActivity := now\<rparr>)"
proof -
  define s1 where "s1 = leaveCurrentGame now sid s"
  show ?thesis
  proof (cases "activeGames s1 key")
    case (Some g)
    with assms obtain g1 where "merge_incoming g st = Inr g1"
      and "activeGames s' = (activeGames s1)
             (key \<mapsto> g1\<lparr>players := insert sid (players g1), lastActivity := now\<rparr>)"
      unfolding JOIN_GAME_def s1_def [symmetric] Let_def
      by (auto split: sum.splits)
    then show ?thesis using found Some unfolding s1_def by blast
  next
    case None
    show ?thesis
    proof (cases "ws = None \<or> cs = None")
      case True
      with assms None have "s' = s1" "ev = []"
        unfolding JOIN_GAME_def s1_def [symmetric] Let_def
        by (auto split: option.splits)
      then show ?thesis using absent None True unfolding s1_def by blast
    next
      case False
      then obtain w c where wc: "ws = Some w" "cs = Some c" by auto
      with assms None obtain g1 where
        "merge_incoming (createNewGameState now key w c st) st = Inr g1"
        and "activeGames s' = (activeGames s1)
             (key \<mapsto> g1\<lparr>players := insert sid (players g1), lastActivity := now\<rparr>)"
        unfolding JOIN_GAME_def s1_def [symmetric] Let_def
        by (auto split: sum.splits)
      then show ?thesis using created None wc unfolding s1_def by blast
    qed
  qed
qed

section \<open>Reveal flags never go back\<close>

lemma js_get_True_iff:
  "js_get xs j = JBool True \<longleftrightarrow> j < length xs \<and> xs ! j = JBool True"
  by (auto simp: js_get_def split: cell.splits)

lemma js_set_keeps_True:
  "js_get xs j = JBool True \<Longrightarrow> js_get (js_set xs i (JBool True)) j = JBool True"
  by (auto simp: js_get_True_iff js_set_def nth_append nth_list_update)

lemma merge_cell_True: "merge_cell inc (JBool True) i = Inr (JBool True)"
  by (simp add: merge_cell_def)

lemma merge_cells_length:
  "merge_cells inc xs i = Inr ys \<Longrightarrow> length ys = length xs"
  by (induction xs arbitrary: i ys) (auto split: sum.splits)

lemma merge_cells_nth:
  "merge_cells inc xs i = Inr ys \<Longrightarrow> j < length xs
     \<Longrightarrow> merge_cell inc (xs ! j) (i + j) = Inr (ys ! j)"
proof (induction xs arbitrary: i ys j)
  case Nil
  then show ?case by simp
next
  case (Cons c cs)
  from Cons.prems(1) obtain c' cs' where
    c': "merge_cell inc c i = Inr c'" and cs': "merge_cells inc cs (Suc i) = Inr cs'"
    and ys: "ys = c' # cs'"
    by (auto split: sum.splits)
  show ?case
  proof (cases j)
    case 0
    then show ?thesis using c' ys by simp
  next
    case (Suc j')
    then have "j' < length cs" using Cons.prems(2) by simp
    from Cons.IH [OF cs' this] show ?thesis using Suc ys by simp
  qed
qed

lemma merge_cells_keeps_True:
  assumes "merge_cells inc xs 0 = Inr ys" and "js_get xs j = JBool True"
  shows "js_get ys j = JBool True"
proof -
  from assms(2) have j: "j < length xs" and x: "xs ! j = JBool True"
    by (simp_all add: js_get_True_iff)
  from merge_cells_nth [OF assms(1) j] x have "ys ! j = JBool True"
    by (simp add: merge_cell_True)
  then show ?thesis using j merge_cells_length [OF assms(1)] by (simp add: js_get_True_iff)
qed

lemma merge_cells_Some_total: "\<exists>ys. merge_cells (Some r) xs i = Inr ys"
proof (induction xs arbitrary: i)
  case Nil
  show ?case by simp
next
  case (Cons c cs)
  have "\<exists>c'. merge_cell (Some r) c i = Inr c'"
    by (simp add: merge_cell_def)
  then obtain c' where c': "merge_cell (Some r) c i = Inr c'" by blast
  obtain cs' where cs': "merge_cells (Some r) cs (Suc i) = Inr cs'"
    using Cons.IH by blast
  show ?case using c' cs' by simp
qed

lemma mergeGameStates_Some:
  "mergeGameStates (Some g) st = Inr r \<Longrightarrow>
     \<exists>ys. merge_cells (snap_revealed st) (revealed g) 0 = Inr ys \<and> r = Inr (g\<lparr>revealed := ys\<rparr>)"
  by (auto simp: mergeGameStates_def split: sum.splits)

lemma merge_incoming_cases:
  assumes "merge_incoming g st = Inr g1"
  obtains (plain) "st = None" and "g1 = g"
  | (merged) sn ys where "st = Some sn"
      and "merge_cells (snap_revealed sn) (revealed g) 0 = Inr ys"
      and "g1 = calculateDerivedState (g\<lparr>revealed := ys\<rparr>)"
proof (cases st)
  case None
  then show ?thesis using assms plain by (simp add: merge_incoming_def)
next
  case (Some sn)
  then obtain r where r: "mergeGameStates (Some g) sn = Inr r"
    using assms by (auto simp: merge_incoming_def split: sum.splits)
  from mergeGameStates_Some [OF r] obtain ys where
    ys: "merge_cells (snap_revealed sn) (revealed g) 0 = Inr ys" and r': "r = Inr (g\<lparr>revealed := ys\<rparr>)"
    by blast
  have "g1 = calculateDerivedState (g\<lparr>revealed := ys\<rparr>)"
    using assms Some r r' by (simp add: merge_incoming_def)
  then show ?thesis using merged Some ys by blast
qed

lemma merge_incoming_total:
  assumes "snap_revealed sn = Some r"
  shows "\<exists>g1. merge_incoming g (Some sn) = Inr g1"
proof -
  obtain ys where "merge_cells (Some r) (revealed g) 0 = Inr ys"
    using merge_cells_Some_total by blast
  then show ?thesis using assms by (simp add: merge_incoming_def mergeGameStates_def)
qed

lemma merge_incoming_keeps_True:
  assumes "merge_incoming g st = Inr g1" and "js_get (revealed g) j = JBool True"
  shows "js_get (revealed g1) j = JBool True"
  using assms(1)
proof (cases rule: merge_incoming_cases)
  case plain
  then show ?thesis using assms(2) by simp
next
  case (merged sn ys)
  then show ?thesis using merge_cells_keeps_True [OF merged(2) assms(2)] by simp
qed

lemma leave_holds_true:
  "holds_true s k j \<Longrightarrow> holds_true (leaveCurrentGame now sid s) k j"
  by (auto simp: holds_true_def leaveCurrentGame_def Let_def split: option.splits)

lemma REVEAL_holds_true:
  "holds_true s k j \<Longrightarrow> holds_true (fst (REVEAL_CARD now sid key i s)) k j"
  by (auto simp: holds_true_def REVEAL_CARD_def Let_def js_set_keeps_True split: option.splits)

lemma JOIN_holds_true:
  assumes "holds_true s k j" and "JOIN_GAME now sid key ws cs st s = Inr (s', ev)"
  shows "holds_true s' k j"
proof -
  have h1: "holds_true (leaveCurrentGame now sid s) k j"
    by (rule leave_holds_true [OF assms(1)])
  from assms(2) show ?thesis
  proof (cases rule: JOIN_GAME_cases)
    case absent
    then show ?thesis using h1 by simp
  next
    case (found g g1)
    then show ?thesis using h1 merge_incoming_keeps_True [OF found(2), of j]
      by (auto simp: holds_true_def split: option.splits)
  next
    case (created w c g1)
    then show ?thesis using h1
      by (auto simp: holds_true_def split: option.splits)
  qed
qed

lemma run_holds_true:
  assumes "\<forall>c \<in> set cmds. \<not> is_New (snd (snd c))" and "holds_true s k j"
    and "run cmds s = Inr (s', evs)"
  shows "holds_true s' k j"
  using assms
proof (induction cmds arbitrary: s evs)
  case Nil
  then show ?case by simp
next
  case (Cons c cmds)
  obtain now sid cmd where c: "c = (now, sid, cmd)" by (cases c) auto
  from Cons.prems(3) c obtain s1 ev1 ev2 where
    h: "handle now sid cmd s = Inr (s1, ev1)" and r: "run cmds s1 = Inr (s', ev2)"
    by (auto split: sum.splits prod.splits)
  have nn: "\<not> is_New cmd" using Cons.prems(1) c by simp
  have "holds_true s1 k j"
  proof (cases cmd)
    case (Join key ws cs st)
    then show ?thesis using h Cons.prems(2) by (auto intro: JOIN_holds_true)
  next
    case (New key ws cs)
    then show ?thesis using nn by simp
  next
    case (Reveal key i)
    then show ?thesis using h REVEAL_holds_true [OF Cons.prems(2), of now sid key i] by auto
  next
    case Disconnect
    then show ?thesis using h leave_holds_true [OF Cons.prems(2), of now sid]
      by (auto simp: disconnect_def)
  qed
  from Cons.IH [OF _ this r] Cons.prems(1) show ?case by simp
qed

lemma merge_cells_bools:
  assumes "length a = length b"
  shows "merge_cells (Some (map JBool b)) (map JBool a) 0 = Inr (map JBool (map2 (\<or>) a b))"
proof -
  obtain ys where ys: "merge_cells (Some (map JBool b)) (map JBool a) 0 = Inr ys"
    using merge_cells_Some_total by blast
  have len: "length ys = length a" using merge_cells_length [OF ys] by simp
  have "ys = map JBool (map2 (\<or>) a b)"
  proof (rule nth_equalityI)
    show "length ys = length (map JBool (map2 (\<or>) a b))" using len assms by simp
  next
    fix j assume "j < length ys"
    then have j: "j < length a" using len by simp
    from merge_cells_nth [OF ys, of j] j assms
    show "ys ! j = map JBool (map2 (\<or>) a b) ! j"
      by (auto simp: merge_cell_def js_get_map_JBool split: if_splits)
  qed
  then show ?thesis using ys by simp
qed

text \<open>
  Claim C3.  Over every sequence of \<open>JOIN_GAME\<close> (with or without a snapshot to
  merge), \<open>REVEAL_CARD\<close> and disconnect messages from any connections, a cell of a
  session's \<open>revealed\<close> that is \<open>true\<close> stays \<open>true\<close>; and merging a snapshot
  of 25 booleans into 25 booleans gives their elementwise disjunction.
\<close>

theorem revealed_monotonic:
  "((\<forall>c \<in> set cmds. \<not> is_New (snd (snd c))) \<and> activeGames s k = Some g
      \<and> js_get (revealed g) i = JBool True \<and> run cmds s = Inr (s', evs)
     \<longrightarrow> (\<exists>g'. activeGames s' k = Some g' \<and> js_get (revealed g') i = JBool True))
   \<and> (length a = 25 \<and> length b = 25
     \<longrightarrow> mergeGameStates (Some (base\<lparr>revealed := map JBool a\<rparr>))
           \<lparr> snap_revealed = Some (map JBool b), snap_currentTeam = t \<rparr>
         = Inr (Inr (base\<lparr>revealed := map JBool (map2 (\<or>) a b)\<rparr>)))"
proof (intro conjI impI)
  assume h: "(\<forall>c \<in> set cmds. \<not> is_New (snd (snd c))) \<and> activeGames s k = Some g
      \<and> js_get (revealed g) i = JBool True \<and> run cmds s = Inr (s', evs)"
  then have "holds_true s k i" by (simp add: holds_true_def)
  with h have "holds_true s' k i" using run_holds_true by blast
  then show "\<exists>g'. activeGames s' k = Some g' \<and> js_get (revealed g') i = JBool True"
    by (auto simp: holds_true_def split: option.splits)
next
  assume "length a = 25 \<and> length b = 25"
  then have "length a = length b" by simp
  then show "mergeGameStates (Some (base\<lparr>revealed := map JBool a\<rparr>))
           \<lparr> snap_revealed = Some (map JBool b), snap_currentTeam = t \<rparr>
         = Inr (Inr (base\<lparr>revealed := map JBool (map2 (\<or>) a b)\<rparr>))"
    by (simp add: mergeGameStates_def merge_cells_bools)
qed

lemma JOIN_GAME_total:
  assumes "snap_revealed sn = Some r"
  shows "\<exists>s' ev. JOIN_GAME now sid k ws cs (Some sn) s = Inr (s', ev)"
proof -
  have m: "\<And>g. \<exists>g1. merge_incoming g (Some sn) = Inr g1"
    using merge_incoming_total [OF assms] by blast
  define s1 where "s1 = leaveCurrentGame now sid s"
  show ?thesis
  proof (cases "activeGames s1 k")
    case (Some g)
    obtain g1 where "merge_incoming g (Some sn) = Inr g1" using m by blast
    then show ?thesis using Some
      unfolding JOIN_GAME_def s1_def [symmetric] Let_def by simp
  next
    case None
    show ?thesis
    proof (cases "ws = None \<or> cs = None")
      case True
      then show ?thesis using None
        unfolding JOIN_GAME_def s1_def [symmetric] Let_def by (auto split: option.splits)
    next
      case False
      then obtain w c where wc: "ws = Some w" "cs = Some c" by auto
      obtain g1 where "merge_incoming (createNewGameState now k w c (Some sn)) (Some sn) = Inr g1"
        using m by blast
      then show ?thesis using None wc
        unfolding JOIN_GAME_def s1_def [symmetric] Let_def by simp
    qed
  qed
qed

lemma server2_games: "activeGames server2 ''K'' = Some (reveal_update 2 9 fresh1)"
  by (simp add: server2_def REVEAL_CARD_applied [OF server1_cur server1_games] fresh1_fields js_get_def)

lemma cmds2_no_new: "\<forall>c \<in> set cmds2. \<not> is_New (snd (snd c))"
  by (simp add: cmds2_def)

lemma cmds2_runs: "\<exists>s' evs. run cmds2 server2 = Inr (s', evs)"
proof -
  have "snap_revealed snap_none = Some (replicate 25 (JBool False))" by (simp add: snap_none_def)
  from JOIN_GAME_total [OF this]
  obtain s3 ev3 where "JOIN_GAME 3 ''s2'' ''K'' None None (Some snap_none) server2 = Inr (s3, ev3)"
    by blast
  then show ?thesis by (simp add: cmds2_def split: prod.splits)
qed

text \<open>
  Card 9 is revealed; a second connection joins with an all-false snapshot and the
  first one reveals card 0: card 9 is still revealed.
\<close>

theorem revealed_monotonic_witness:
  "(\<exists>s' evs g'. (\<forall>c \<in> set cmds2. \<not> is_New (snd (snd c)))
      \<and> activeGames server2 ''K'' = Some (reveal_update 2 9 fresh1)
      \<and> js_get (revealed (reveal_update 2 9 fresh1)) 9 = JBool True
      \<and> run cmds2 server2 = Inr (s', evs)
      \<and> activeGames s' ''K'' = Some g' \<and> js_get (revealed g') 9 = JBool True)
   \<and> length flags1 = 25 \<and> length flags2 = 25
   \<and> mergeGameStates (Some (game1\<lparr>revealed := map JBool flags1\<rparr>))
           \<lparr> snap_revealed = Some (map JBool flags2), snap_currentTeam = None \<rparr>
         = Inr (Inr (game1\<lparr>revealed := map JBool
             [True, False, False, False, False, False, False, False, False,
              True, True, True, True, True, True, True, True,
              False, False, False, False, False, False, False,
              True]\<rparr>))"
proof -
  obtain s' evs where r: "run cmds2 server2 = Inr (s', evs)" using cmds2_runs by blast
  have t: "js_get (revealed (reveal_update 2 9 fresh1)) 9 = JBool True"
    by (simp add: fresh1_fields js_get_def js_set_def)
  have l: "length flags1 = 25" "length flags2 = 25" by (simp_all add: flags1_def flags2_def)
  note m = revealed_monotonic [of cmds2 server2 "''K''" "reveal_update 2 9 fresh1" 9 s' evs
      flags1 flags2 game1 None]
  have z: "map2 (\<or>) flags1 flags2 = [True, False, False, False, False, False, False, False, False,
              True, True, True, True, True, True, True, True,
              False, False, False, False, False, False, False,
              True]"
    by (simp add: flags1_def flags2_def)
  have a: "\<exists>g'. activeGames s' ''K'' = Some g' \<and> js_get (revealed g') 9 = JBool True"
    using m cmds2_no_new server2_games t r by blast
  have b: "mergeGameStates (Some (game1\<lparr>revealed := map JBool flags1\<rparr>))
           \<lparr> snap_revealed = Some (map JBool flags2), snap_currentTeam = None \<rparr>
         = Inr (Inr (game1\<lparr>revealed := map JBool (map2 (\<or>) flags1 flags2)\<rparr>))"
    using m l by blast
  show ?thesis
    using a b [unfolded z] cmds2_no_new server2_games t r l by blast
qed

section \<open>The derived fields follow the board and the reveal flags\<close>

lemma calc_depends:
  assumes "colors g' = colors g" and "revealed g' = revealed g"
  shows "remainingCards (calculateDerivedState g') = remainingCards (calculateDerivedState g)"
    and "gameOver (calculateDerivedState g') = gameOver (calculateDerivedState g)"
    and "winner (calculateDerivedState g') = winner (calculateDerivedState g)"
  using assms by (simp_all add: calculateDerivedState_def Let_def)

lemma derived_in_step_calc: "derived_in_step (calculateDerivedState g)"
  unfolding derived_in_step_def
  using calc_depends [of "calculateDerivedState g" g] by simp

lemma derived_in_step_cong:
  assumes "derived_in_step g" and "colors g' = colors g" and "revealed g' = revealed g"
    and "remainingCards g' = remainingCards g" and "gameOver g' = gameOver g"
    and "winner g' = winner g"
  shows "derived_in_step g'"
  using assms calc_depends [OF assms(2,3)] by (simp add: derived_in_step_def)

lemma derived_in_step_attach:
  "derived_in_step g \<Longrightarrow> derived_in_step (g\<lparr>players := p, lastActivity := t\<rparr>)"
  by (erule derived_in_step_cong) simp_all

lemma derived_in_step_players:
  "derived_in_step g \<Longrightarrow> derived_in_step (g\<lparr>players := p\<rparr>)"
  by (erule derived_in_step_cong) simp_all

lemma derived_in_step_lastActivity:
  "derived_in_step g \<Longrightarrow> derived_in_step (g\<lparr>lastActivity := t\<rparr>)"
  by (erule derived_in_step_cong) simp_all

lemma derived_in_step_create: "derived_in_step (createNewGameState now k ws cs sv)"
  by (simp add: createNewGameState_def Let_def derived_in_step_calc)

lemma derived_in_step_reveal: "derived_in_step (reveal_update now i g)"
  by (simp add: reveal_update_def Let_def derived_in_step_calc)

lemma derived_in_step_merge:
  assumes "derived_in_step g" and "merge_incoming g st = Inr g1"
  shows "derived_in_step g1"
  using assms(2)
proof (cases rule: merge_incoming_cases)
  case plain
  then show ?thesis using assms(1) by simp
next
  case (merged sn ys)
  then show ?thesis by (simp add: derived_in_step_calc)
qed

lemma leave_in_step:
  assumes "registry_in_step s"
  shows "registry_in_step (leaveCurrentGame now sid s)"
  using assms
  by (auto simp: registry_in_step_def leaveCurrentGame_def Let_def
        derived_in_step_players derived_in_step_lastActivity
      split: option.splits if_splits)

lemma NEW_in_step:
  assumes "registry_in_step s"
  shows "registry_in_step (fst (NEW_GAME now sid key ws cs s))"
  using leave_in_step [OF assms, of now sid]
  by (auto simp: registry_in_step_def NEW_GAME_def Let_def
        derived_in_step_players derived_in_step_create split: if_splits)

lemma REVEAL_in_step:
  assumes "registry_in_step s"
  shows "registry_in_step (fst (REVEAL_CARD now sid key i s))"
  using assms
  by (auto simp: registry_in_step_def REVEAL_CARD_def Let_def derived_in_step_reveal
      split: option.splits if_splits)

lemma JOIN_in_step:
  assumes "registry_in_step s" and "JOIN_GAME now sid key ws cs st s = Inr (s', ev)"
  shows "registry_in_step s'"
proof -
  have h1: "registry_in_step (leaveCurrentGame now sid s)"
    by (rule leave_in_step [OF assms(1)])
  from assms(2) show ?thesis
  proof (cases rule: JOIN_GAME_cases)
    case absent
    then show ?thesis using h1 by simp
  next
    case (found g g1)
    from h1 found(1) have "derived_in_step g" by (simp add: registry_in_step_def)
    from derived_in_step_merge [OF this found(2)] have "derived_in_step g1" .
    then show ?thesis using h1 found(3)
      by (auto simp: registry_in_step_def derived_in_step_attach split: if_splits)
  next
    case (created w c g1)
    from derived_in_step_merge [OF derived_in_step_create created(4)] have "derived_in_step g1" .
    then show ?thesis using h1 created(5)
      by (auto simp: registry_in_step_def derived_in_step_attach split: if_splits)
  qed
qed

lemma handle_in_step:
  assumes "registry_in_step s" and "handle now sid cmd s = Inr (s', ev)"
  shows "registry_in_step s'"
proof (cases cmd)
  case (Join key ws cs st)
  then show ?thesis using assms by (auto intro: JOIN_in_step)
next
  case (New key ws cs)
  then show ?thesis using assms(2) NEW_in_step [OF assms(1), of now sid key ws cs] by auto
next
  case (Reveal key i)
  then show ?thesis using assms(2) REVEAL_in_step [OF assms(1), of now sid key i] by auto
next
  case Disconnect
  then show ?thesis using assms(2) leave_in_step [OF assms(1), of now sid]
    by (auto simp: disconnect_def)
qed

lemma run_in_step:
  assumes "registry_in_step s" and "run cmds s = Inr (s', evs)"
  shows "registry_in_step s'"
  using assms
proof (induction cmds arbitrary: s evs)
  case Nil
  then show ?case by simp
next
  case (Cons c cmds)
  obtain now sid cmd where c: "c = (now, sid, cmd)" by (cases c) auto
  from Cons.prems(2) c obtain s1 ev1 ev2 where
    h: "handle now sid cmd s = Inr (s1, ev1)" and r: "run cmds s1 = Inr (s', ev2)"
    by (auto split: sum.splits prod.splits)
  from Cons.IH [OF handle_in_step [OF Cons.prems(1) h] r] show ?case .
qed

text \<open>
  Claim C4.  From a registry in which every session stores the derived fields that
  \<open>calculateDerivedState\<close> computes from its board and reveal flags, every sequence
  of messages (creation by \<open>NEW_GAME\<close> or \<open>JOIN_GAME\<close>, join with merge, reveal,
  disconnect) leads to a registry in which every session, old or new, again stores
  exactly those fields.
\<close>

theorem derived_fields_never_drift:
  assumes "\<forall>k g. activeGames s k = Some g \<longrightarrow>
             remainingCards g = remainingCards (calculateDerivedState g)
             \<and> gameOver g = gameOver (calculateDerivedState g)
             \<and> winner g = winner (calculateDerivedState g)"
    and "run cmds s = Inr (s', evs)"
    and "activeGames s' k' = Some g'"
  shows "remainingCards g' = remainingCards (calculateDerivedState g')
       \<and> gameOver g' = gameOver (calculateDerivedState g')
       \<and> winner g' = winner (calculateDerivedState g')"
proof -
  have "registry_in_step s" using assms(1) by (simp add: registry_in_step_def derived_in_step_def)
  from run_in_step [OF this assms(2)] assms(3) have "derived_in_step g'"
    by (simp add: registry_in_step_def)
  then show ?thesis by (simp add: derived_in_step_def)
qed

lemma cmds4_runs: "\<exists>s' evs g'. run cmds4 server0 = Inr (s', evs) \<and> activeGames s' ''K'' = Some g'"
proof -
  obtain s' evs where r: "run cmds2 server2 = Inr (s', evs)" using cmds2_runs by blast
  have t: "holds_true server2 ''K'' 9"
    by (simp add: holds_true_def server2_games fresh1_fields js_get_def js_set_def)
  from run_holds_true [OF cmds2_no_new t r] obtain g' where g': "activeGames s' ''K'' = Some g'"
    by (auto simp: holds_true_def split: option.splits)
  obtain e1 where n: "NEW_GAME 1 ''s1'' ''K'' (Some (replicate 25 ''word'')) (Some board0) server0
      = (server1, e1)"
    by (cases "NEW_GAME 1 ''s1'' ''K'' (Some (replicate 25 ''word'')) (Some board0) server0")
      (simp add: server1_def)
  obtain e2 where v: "REVEAL_CARD 2 ''s1'' ''K'' 9 server1 = (server2, e2)"
    by (cases "REVEAL_CARD 2 ''s1'' ''K'' 9 server1") (simp add: server2_def)
  have "\<exists>evs'. run cmds4 server0 = Inr (s', evs')"
    using n v r by (simp add: cmds4_def)
  then show ?thesis using g' by blast
qed

text \<open>Starting from the empty registry, the session \<open>K\<close> of the run \<open>cmds4\<close> is in step.\<close>

theorem derived_fields_never_drift_witness:
  "\<exists>s' evs g'.
     (\<forall>k g. activeGames server0 k = Some g \<longrightarrow>
             remainingCards g = remainingCards (calculateDerivedState g)
             \<and> gameOver g = gameOver (calculateDerivedState g)
             \<and> winner g = winner (calculateDerivedState g))
     \<and> run cmds4 server0 = Inr (s', evs) \<and> activeGames s' ''K'' = Some g'
     \<and> remainingCards g' = remainingCards (calculateDerivedState g')
     \<and> gameOver g' = gameOver (calculateDerivedState g')
     \<and> winner g' = winner (calculateDerivedState g')"
proof -
  obtain s' evs g' where r: "run cmds4 server0 = Inr (s', evs)" and g: "activeGames s' ''K'' = Some g'"
    using cmds4_runs by blast
  have e: "\<forall>k g. activeGames server0 k = Some g \<longrightarrow>
             remainingCards g = remainingCards (calculateDerivedState g)
             \<and> gameOver g = gameOver (calculateDerivedState g)
             \<and> winner g = winner (calculateDerivedState g)"
    by (simp add: server0_def)
  from derived_fields_never_drift [OF e r g] e r g show ?thesis by blast
qed

section \<open>Reveals on a completed session\<close>

lemma truthy_iff: "truthy c \<longleftrightarrow> c = JBool True"
  by (cases c) auto

lemma js_set_keeps_truthy:
  "truthy (js_get xs j) \<Longrightarrow> truthy (js_get (js_set xs i (JBool True)) j)"
  by (simp add: truthy_iff js_set_keeps_True)

lemma js_get_js_set_same: "js_get (js_set xs i (JBool True)) i = JBool True"
  by (simp add: js_get_def js_set_def nth_append)

lemma gameOver_iff:
  "gameOver (calculateDerivedState g) \<longleftrightarrow>
     (\<exists>j<length (colors g). colors g ! j = ''black'' \<and> truthy (js_get (revealed g) j))
   \<or> (\<forall>j<length (colors g). colors g ! j = ''blue'' \<longrightarrow> truthy (js_get (revealed g) j))
   \<or> (\<forall>j<length (colors g). colors g ! j = ''red'' \<longrightarrow> truthy (js_get (revealed g) j))"
proof -
  have "gameOver (calculateDerivedState g) \<longleftrightarrow>
     (\<exists>j<length (colors g). colors g ! j = ''black'' \<and> truthy (js_get (revealed g) j))
   \<or> blue (remainingCards (calculateDerivedState g)) = 0
   \<or> red (remainingCards (calculateDerivedState g)) = 0"
    by (simp add: gameOver_calc winner_calc)
  then show ?thesis
    by (auto simp: remaining_blue remaining_red filter_empty_conv)
qed

lemma gameOver_stays:
  assumes "gameOver (calculateDerivedState g)"
    and "colors g' = colors g" and "revealed g' = js_set (revealed g) i (JBool True)"
  shows "gameOver (calculateDerivedState g')"
  using assms(1) unfolding gameOver_iff assms(2,3)
  by (meson js_set_keeps_truthy)

lemma reveal_update_gameOver:
  assumes "gameOver (calculateDerivedState g)"
  shows "gameOver (reveal_update now i g)"
proof -
  have "gameOver (calculateDerivedState (reveal_update now i g))"
    by (rule gameOver_stays [OF assms]) simp_all
  moreover have "derived_in_step (reveal_update now i g)" by (rule derived_in_step_reveal)
  ultimately show ?thesis by (simp add: derived_in_step_def)
qed

lemma server3_cur: "currentGame server3 ''s1'' = Some ''K''"
  by (simp add: server3_def REVEAL_CARD_def Let_def server1_cur split: option.splits)

lemma server3_games: "activeGames server3 ''K'' = Some over3"
  by (simp add: server3_def over3_def REVEAL_CARD_applied [OF server1_cur server1_games]
      fresh1_fields js_get_def)

lemma over3_black: "truthy (js_get (revealed over3) 24)"
  by (simp add: over3_def js_get_js_set_same)

lemma over3_gameOver_calc: "gameOver (calculateDerivedState over3)"
proof -
  have "colors over3 ! 24 = ''black''" by (simp add: over3_def fresh1_fields board0_def)
  moreover have "(24::nat) < length (colors over3)" by (simp add: over3_def fresh1_fields board0_def)
  ultimately show ?thesis using over3_black unfolding gameOver_iff by blast
qed

lemma over3_gameOver: "gameOver over3"
  using over3_gameOver_calc derived_in_step_reveal [of 3 24 fresh1]
  by (simp add: derived_in_step_def over3_def)

lemma over3_card0: "js_get (revealed over3) 0 = JBool False"
  by (simp add: over3_def fresh1_fields js_get_def js_set_def)

lemma over3_winner: "winner over3 = Some ''assassin''"
proof -
  have "colors over3 ! 24 = ''black''" by (simp add: over3_def fresh1_fields board0_def)
  moreover have "(24::nat) < length (colors over3)" by (simp add: over3_def fresh1_fields board0_def)
  ultimately have "\<exists>i<length (colors over3). colors over3 ! i = ''black'' \<and> truthy (js_get (revealed over3) i)"
    using over3_black by blast
  then have "winner (calculateDerivedState over3) = Some ''assassin''"
    by (simp add: winner_calc)
  then show ?thesis using derived_in_step_reveal [of 3 24 fresh1]
    by (simp add: derived_in_step_def over3_def)
qed

lemma over3_fields:
  "lastActivity over3 = 3" "currentTeam over3 = ''red''" "colors over3 = board0"
  by (simp_all add: over3_def reveal_update_team fresh1_fields str_get_def board0_def)

text \<open>
  Claim C5 as stated fails: \<open>REVEAL_CARD\<close> has no test of \<open>gameOver\<close>.  On the
  completed session \<open>over3\<close> the reveal of card 0 is carried out: the card is marked,
  the clock is stored, the turn passes on, and the state is broadcast (after a
  further \<open>completeGame\<close> call to the statistics).
\<close>

theorem reveal_on_completed_session_counterexample:
  "currentGame server3 ''s1'' = Some ''K'' \<and> activeGames server3 ''K'' = Some over3
   \<and> gameOver over3 \<and> winner over3 = Some ''assassin''
   \<and> js_get (revealed over3) 0 = JBool False \<and> lastActivity over3 = 3
   \<and> currentTeam over3 = ''red''
   \<and> activeGames (fst (REVEAL_CARD 4 ''s1'' ''K'' 0 server3)) ''K'' = Some (reveal_update 4 0 over3)
   \<and> js_get (revealed (reveal_update 4 0 over3)) 0 = JBool True
   \<and> lastActivity (reveal_update 4 0 over3) = 4
   \<and> currentTeam (reveal_update 4 0 over3) = ''blue''
   \<and> snd (REVEAL_CARD 4 ''s1'' ''K'' 0 server3)
       = [Stats_completeGame ''K'', GAME_STATE ''K'' (reveal_update 4 0 over3)]"
proof -
  have n: "\<not> truthy (js_get (revealed over3) 0)" by (simp add: over3_card0)
  note a = REVEAL_CARD_applied [OF server3_cur server3_games n, of 4]
  have o: "gameOver (reveal_update 4 0 over3)"
    using reveal_update_gameOver [OF over3_gameOver_calc] .
  have w: "winner (reveal_update 4 0 over3) \<noteq> None"
    using o derived_in_step_reveal [of 4 0 over3]
    by (simp add: derived_in_step_def gameOver_calc)
  have t: "currentTeam (reveal_update 4 0 over3) = ''blue''"
    by (simp add: reveal_update_team over3_fields str_get_def board0_def)
  show ?thesis
    using a o w t server3_cur server3_games over3_gameOver over3_winner over3_card0
    by (simp add: over3_fields js_get_js_set_same)
qed

text \<open>
  Claim C5 amended.  On a completed session whose stored \<open>gameOver\<close> is the derived
  one, a \<open>REVEAL_CARD\<close> from a connection joined to it is a no-op without broadcast
  when the card is already revealed; when it is not, the reveal is carried out as on
  a live session (the card is marked, \<open>lastActivity\<close> is set, the state is
  broadcast) and the session stays completed.
\<close>

theorem reveal_on_completed_session:
  assumes "currentGame s sid = Some key" and "activeGames s key = Some g"
    and "gameOver g" and "gameOver g = gameOver (calculateDerivedState g)"
  shows "(truthy (js_get (revealed g) i) \<longrightarrow> REVEAL_CARD now sid key i s = (s, []))
       \<and> (\<not> truthy (js_get (revealed g) i) \<longrightarrow>
            (\<exists>g'. activeGames (fst (REVEAL_CARD now sid key i s)) key = Some g'
               \<and> js_get (revealed g') i = JBool True \<and> lastActivity g' = now
               \<and> gameOver g'
               \<and> snd (REVEAL_CARD now sid key i s) = [Stats_completeGame key, GAME_STATE key g']))"
proof (intro conjI impI)
  assume "truthy (js_get (revealed g) i)"
  then show "REVEAL_CARD now sid key i s = (s, [])"
    using assms(1,2) by (simp add: REVEAL_CARD_def)
next
  assume n: "\<not> truthy (js_get (revealed g) i)"
  note a = REVEAL_CARD_applied [OF assms(1,2) n, of now]
  have o: "gameOver (reveal_update now i g)"
    using reveal_update_gameOver assms(3,4) by simp
  have w: "winner (reveal_update now i g) \<noteq> None"
    using o derived_in_step_reveal [of now i g]
    by (simp add: derived_in_step_def gameOver_calc)
  show "\<exists>g'. activeGames (fst (REVEAL_CARD now sid key i s)) key = Some g'
               \<and> js_get (revealed g') i = JBool True \<and> lastActivity g' = now
               \<and> gameOver g'
               \<and> snd (REVEAL_CARD now sid key i s) = [Stats_completeGame key, GAME_STATE key g']"
    using a o w by (simp add: js_get_js_set_same)
qed

text \<open>On \<open>over3\<close>: card 24 is already revealed, card 0 is not.\<close>

theorem reveal_on_completed_session_witness:
  "currentGame server3 ''s1'' = Some ''K'' \<and> activeGames server3 ''K'' = Some over3
   \<and> gameOver over3 \<and> gameOver over3 = gameOver (calculateDerivedState over3)
   \<and> truthy (js_get (revealed over3) 24)
   \<and> REVEAL_CARD 5 ''s1'' ''K'' 24 server3 = (server3, [])
   \<and> \<not> truthy (js_get (revealed over3) 0)
   \<and> (\<exists>g'. activeGames (fst (REVEAL_CARD 5 ''s1'' ''K'' 0 server3)) ''K'' = Some g'
          \<and> js_get (revealed g') 0 = JBool True \<and> lastActivity g' = 5 \<and> gameOver g'
          \<and> snd (REVEAL_CARD 5 ''s1'' ''K'' 0 server3) = [Stats_completeGame ''K'', GAME_STATE ''K'' g'])"
proof -
  have e: "gameOver over3 = gameOver (calculateDerivedState over3)"
    using over3_gameOver over3_gameOver_calc by simp
  have n: "\<not> truthy (js_get (revealed over3) 0)" by (simp add: over3_card0)
  from reveal_on_completed_session [OF server3_cur server3_games over3_gameOver e, of 24 5]
  have a: "REVEAL_CARD 5 ''s1'' ''K'' 24 server3 = (server3, [])"
    using over3_black by blast
  from reveal_on_completed_session [OF server3_cur server3_games over3_gameOver e, of 0 5]
  have b: "\<exists>g'. activeGames (fst (REVEAL_CARD 5 ''s1'' ''K'' 0 server3)) ''K'' = Some g'
          \<and> js_get (revealed g') 0 = JBool True \<and> lastActivity g' = 5 \<and> gameOver g'
          \<and> snd (REVEAL_CARD 5 ''s1'' ''K'' 0 server3) = [Stats_completeGame ''K'', GAME_STATE ''K'' g']"
    using n by blast
  show ?thesis
    using a b e n server3_cur server3_games over3_gameOver over3_black by blast
qed

section \<open>NEW_GAME under a key in use\<close>

lemma NEW_GAME_stores:
  "activeGames (fst (NEW_GAME now sid key ws cs s)) key
     = Some ((createNewGameState now key (case ws of None \<Rightarrow> [] | Some w \<Rightarrow> w)
               (case cs of None \<Rightarrow> [] | Some c \<Rightarrow> c) None)\<lparr>players := {sid}\<rparr>)"
  by (simp add: NEW_GAME_def Let_def createNewGameState_fields)

text \<open>
  Claim C6 as stated fails: \<open>NEW_GAME\<close> does not look the key up before it stores
  the fresh session.  The session \<open>K\<close> of \<open>server2\<close> has card 9 revealed, red to
  move and the connection \<open>s1\<close> attached; after a \<open>NEW_GAME\<close> for \<open>K\<close> from a second
  connection the registry holds a fresh session under \<open>K\<close>: no card revealed, blue to
  move, only the second connection attached.
\<close>

theorem new_game_on_existing_key_counterexample:
  "activeGames server2 ''K'' = Some (reveal_update 2 9 fresh1)
   \<and> js_get (revealed (reveal_update 2 9 fresh1)) 9 = JBool True
   \<and> currentTeam (reveal_update 2 9 fresh1) = ''red''
   \<and> players (reveal_update 2 9 fresh1) = {''s1''}
   \<and> activeGames (fst (NEW_GAME 3 ''s2'' ''K'' (Some (replicate 25 ''word'')) (Some board0) server2)) ''K''
       = Some ((createNewGameState 3 ''K'' (replicate 25 ''word'') board0 None)\<lparr>players := {''s2''}\<rparr>)
   \<and> js_get (revealed ((createNewGameState 3 ''K'' (replicate 25 ''word'') board0 None)\<lparr>players := {''s2''}\<rparr>)) 9
       = JBool False
   \<and> currentTeam ((createNewGameState 3 ''K'' (replicate 25 ''word'') board0 None)\<lparr>players := {''s2''}\<rparr>)
       = ''blue''"
proof -
  have t: "currentTeam (reveal_update 2 9 fresh1) = ''red''"
    by (simp add: reveal_update_team fresh1_fields str_get_def board0_def)
  have p: "players (reveal_update 2 9 fresh1) = {''s1''}"
    by (simp add: fresh1_def)
  have f: "js_get (revealed ((createNewGameState 3 ''K'' (replicate 25 ''word'') board0 None)
              \<lparr>players := {''s2''}\<rparr>)) 9 = JBool False"
    by (simp add: createNewGameState_fields js_get_def)
  show ?thesis
    using t p f server2_games
    by (simp add: NEW_GAME_stores createNewGameState_fields js_get_js_set_same)
qed

text \<open>
  Claim C6 amended.  For every key under which a session already exists, \<open>NEW_GAME\<close>
  stores a fresh session under the key, replacing the existing record: the new
  record has the board of the message, 25 unrevealed cards, blue to move, the
  derived fields computed from them, and the sender as its only player.  The
  registry maps the key to this one record, so no second session exists for it.
\<close>

theorem new_game_on_existing_key:
  assumes "activeGames s key = Some old"
  shows "activeGames (fst (NEW_GAME now sid key (Some ws) (Some cs) s)) key
     = Some ((createNewGameState now key ws cs None)\<lparr>players := {sid}\<rparr>)
   \<and> revealed ((createNewGameState now key ws cs None)\<lparr>players := {sid}\<rparr>)
       = replicate 25 (JBool False)
   \<and> currentTeam ((createNewGameState now key ws cs None)\<lparr>players := {sid}\<rparr>) = ''blue''
   \<and> colors ((createNewGameState now key ws cs None)\<lparr>players := {sid}\<rparr>) = cs
   \<and> words ((createNewGameState now key ws cs None)\<lparr>players := {sid}\<rparr>) = ws
   \<and> derived_in_step ((createNewGameState now key ws cs None)\<lparr>players := {sid}\<rparr>)
   \<and> snd (NEW_GAME now sid key (Some ws) (Some cs) s)
       = [Stats_addGame key,
          GAME_STATE key ((createNewGameState now key ws cs None)\<lparr>players := {sid}\<rparr>)]"
  using derived_in_step_players [OF derived_in_step_create, of "{sid}" now key ws cs None]
  by (simp add: NEW_GAME_stores createNewGameState_fields)
    (simp add: NEW_GAME_def Let_def createNewGameState_fields)

text \<open>The session \<open>K\<close> of \<open>server2\<close> is replaced by the fresh one.\<close>

theorem new_game_on_existing_key_witness:
  "activeGames server2 ''K'' = Some (reveal_update 2 9 fresh1)
   \<and> activeGames (fst (NEW_GAME 3 ''s2'' ''K'' (Some (replicate 25 ''word'')) (Some board0) server2)) ''K''
     = Some ((createNewGameState 3 ''K'' (replicate 25 ''word'') board0 None)\<lparr>players := {''s2''}\<rparr>)
   \<and> revealed ((createNewGameState 3 ''K'' (replicate 25 ''word'') board0 None)\<lparr>players := {''s2''}\<rparr>)
       = replicate 25 (JBool False)
   \<and> currentTeam ((createNewGameState 3 ''K'' (replicate 25 ''word'') board0 None)\<lparr>players := {''s2''}\<rparr>)
       = ''blue''"
  using new_game_on_existing_key [OF server2_games, of 3 "''s2''" "replicate 25 ''word''" board0]
    server2_games
  by blast

section \<open>A card index beyond the board\<close>




lemma fresh1_more:
  "lastActivity fresh1 = 1" "players fresh1 = {''s1''}" "words fresh1 = replicate 25 ''word''"
  by (simp_all add: fresh1_def createNewGameState_fields)






section \<open>What a merge leaves alone\<close>

lemma leave_keeps_fields:
  assumes "activeGames s k = Some g"
  shows "\<exists>g1. activeGames (leaveCurrentGame now sid s) k = Some g1
           \<and> words g1 = words g \<and> colors g1 = colors g \<and> currentTeam g1 = currentTeam g
           \<and> revealed g1 = revealed g"
  using assms by (auto simp: leaveCurrentGame_def Let_def split: option.splits)

lemma leave_keeps_absent:
  "activeGames s k = None \<Longrightarrow> activeGames (leaveCurrentGame now sid s) k = None"
  by (auto simp: leaveCurrentGame_def Let_def split: option.splits)

lemma merge_incoming_fields:
  assumes "merge_incoming g st = Inr g1"
  shows "words g1 = words g \<and> colors g1 = colors g \<and> currentTeam g1 = currentTeam g
       \<and> lastActivity g1 = lastActivity g \<and> players g1 = players g"
  using assms
proof (cases rule: merge_incoming_cases)
  case plain
  then show ?thesis by simp
next
  case (merged sn ys)
  then show ?thesis by simp
qed

lemma createNewGameState_team:
  "snap_currentTeam st = Some t \<Longrightarrow> t \<noteq> [] \<Longrightarrow>
     currentTeam (createNewGameState now key w c (Some st)) = t"
  by (simp add: createNewGameState_def Let_def)

lemma JOIN_existing_fields:
  assumes "activeGames s key = Some g" and "JOIN_GAME now sid key ws cs st s = Inr (s', ev)"
  shows "\<exists>g'. activeGames s' key = Some g' \<and> words g' = words g \<and> colors g' = colors g
           \<and> currentTeam g' = currentTeam g"
proof -
  from leave_keeps_fields [OF assms(1), of now sid] obtain g0 where
    g0: "activeGames (leaveCurrentGame now sid s) key = Some g0"
    "words g0 = words g" "colors g0 = colors g" "currentTeam g0 = currentTeam g"
    by blast
  from assms(2) show ?thesis
  proof (cases rule: JOIN_GAME_cases)
    case absent
    then show ?thesis using g0 by simp
  next
    case (found h g1)
    then have "h = g0" using g0(1) by simp
    then show ?thesis using found(3) merge_incoming_fields [OF found(2)] g0 by simp
  next
    case (created w c g1)
    then show ?thesis using g0 by simp
  qed
qed

lemma JOIN_created_team:
  assumes "activeGames s key = None"
    and "JOIN_GAME now sid key (Some w) (Some c) (Some st) s = Inr (s', ev)"
    and "snap_currentTeam st = Some t" and "t \<noteq> []"
  shows "\<exists>g'. activeGames s' key = Some g' \<and> currentTeam g' = t"
proof -
  note n = leave_keeps_absent [OF assms(1), of now sid]
  from assms(2) show ?thesis
  proof (cases rule: JOIN_GAME_cases)
    case absent
    then show ?thesis by simp
  next
    case (found h g1)
    then show ?thesis using n by simp
  next
    case (created w' c' g1)
    then show ?thesis
      using merge_incoming_fields [OF created(4)] createNewGameState_team [OF assms(3,4)]
      by simp
  qed
qed

text \<open>
  Claim C8.  \<open>mergeGameStates\<close> on a present base state returns the base state with
  only \<open>revealed\<close> replaced.  A \<open>JOIN_GAME\<close> that carries a snapshot and finds a
  session under the key leaves its words, board and current team as they are,
  whatever team the snapshot carries (the join itself then attaches the player and
  sets \<open>lastActivity\<close>).  The team of a snapshot is taken only when the \<open>JOIN_GAME\<close>
  creates the session.
\<close>

theorem merge_keeps_authoritative_fields:
  "(mergeGameStates (Some base) st = Inr r \<longrightarrow> (\<exists>ys. r = Inr (base\<lparr>revealed := ys\<rparr>)))
   \<and> (activeGames s key = Some g \<and> JOIN_GAME now sid key ws cs (Some st) s = Inr (s', ev)
        \<longrightarrow> (\<exists>g'. activeGames s' key = Some g' \<and> words g' = words g \<and> colors g' = colors g
                \<and> currentTeam g' = currentTeam g))
   \<and> (activeGames s key = None \<and> JOIN_GAME now sid key (Some w) (Some c) (Some st) s = Inr (s', ev)
        \<and> snap_currentTeam st = Some t \<and> t \<noteq> []
        \<longrightarrow> (\<exists>g'. activeGames s' key = Some g' \<and> currentTeam g' = t))"
proof (intro conjI impI)
  assume "mergeGameStates (Some base) st = Inr r"
  from mergeGameStates_Some [OF this] show "\<exists>ys. r = Inr (base\<lparr>revealed := ys\<rparr>)" by blast
next
  assume "activeGames s key = Some g \<and> JOIN_GAME now sid key ws cs (Some st) s = Inr (s', ev)"
  then show "\<exists>g'. activeGames s' key = Some g' \<and> words g' = words g \<and> colors g' = colors g
                \<and> currentTeam g' = currentTeam g"
    using JOIN_existing_fields by blast
next
  assume "activeGames s key = None \<and> JOIN_GAME now sid key (Some w) (Some c) (Some st) s = Inr (s', ev)
        \<and> snap_currentTeam st = Some t \<and> t \<noteq> []"
  then show "\<exists>g'. activeGames s' key = Some g' \<and> currentTeam g' = t"
    using JOIN_created_team by blast
qed

lemma server2_team: "currentTeam (reveal_update 2 9 fresh1) = ''red''"
  by (simp add: reveal_update_team fresh1_fields str_get_def board0_def)

text \<open>
  The live session of \<open>server2\<close> has red to move and keeps it when a snapshot with
  team blue is merged; a session created from a snapshot with team red starts with
  red to move.
\<close>

theorem merge_keeps_authoritative_fields_witness:
  "(\<exists>r. mergeGameStates (Some game1) snap_blue = Inr r \<and> (\<exists>ys. r = Inr (game1\<lparr>revealed := ys\<rparr>)))
   \<and> (\<exists>s' ev g'. activeGames server2 ''K'' = Some (reveal_update 2 9 fresh1)
        \<and> JOIN_GAME 3 ''s2'' ''K'' None None (Some snap_blue) server2 = Inr (s', ev)
        \<and> activeGames s' ''K'' = Some g' \<and> colors g' = board0 \<and> currentTeam g' = ''red'')
   \<and> (\<exists>s' ev g'. activeGames server0 ''K'' = None
        \<and> JOIN_GAME 3 ''s2'' ''K'' (Some (replicate 25 ''word'')) (Some board0) (Some snap_none) server0
            = Inr (s', ev)
        \<and> snap_currentTeam snap_none = Some ''red'' \<and> ''red'' \<noteq> []
        \<and> activeGames s' ''K'' = Some g' \<and> currentTeam g' = ''red'')"
proof -
  have sb: "snap_revealed snap_blue = Some (map JBool flags2)" by (simp add: snap_blue_def)
  have sn: "snap_revealed snap_none = Some (replicate 25 (JBool False))" by (simp add: snap_none_def)
  have tn: "snap_currentTeam snap_none = Some ''red''" by (simp add: snap_none_def)
  have e: "activeGames server0 ''K'' = None" by (simp add: server0_def)
  obtain ys0 where "merge_cells (Some (map JBool flags2)) (revealed game1) 0 = Inr ys0"
    using merge_cells_Some_total by blast
  then have m: "mergeGameStates (Some game1) snap_blue = Inr (Inr (game1\<lparr>revealed := ys0\<rparr>))"
    by (simp add: mergeGameStates_def sb)
  obtain s1 ev1 where j1: "JOIN_GAME 3 ''s2'' ''K'' None None (Some snap_blue) server2 = Inr (s1, ev1)"
    using JOIN_GAME_total [OF sb] by blast
  obtain s2 ev2 where j2: "JOIN_GAME 3 ''s2'' ''K'' (Some (replicate 25 ''word'')) (Some board0)
      (Some snap_none) server0 = Inr (s2, ev2)"
    using JOIN_GAME_total [OF sn] by blast
  note t = merge_keeps_authoritative_fields
  have a: "\<exists>ys. (Inr (game1\<lparr>revealed := ys0\<rparr>) :: snapshot + game) = Inr (game1\<lparr>revealed := ys\<rparr>)"
    using t [of game1 snap_blue "Inr (game1\<lparr>revealed := ys0\<rparr>)"] m by blast
  have b: "\<exists>g'. activeGames s1 ''K'' = Some g' \<and> words g' = words (reveal_update 2 9 fresh1)
        \<and> colors g' = colors (reveal_update 2 9 fresh1)
        \<and> currentTeam g' = currentTeam (reveal_update 2 9 fresh1)"
    using t [of _ snap_blue _ server2 "''K''" "reveal_update 2 9 fresh1" 3 "''s2''" None None s1 ev1]
      server2_games j1 by blast
  have c: "\<exists>g'. activeGames s2 ''K'' = Some g' \<and> currentTeam g' = ''red''"
    using t [of _ snap_none _ server0 "''K''" _ 3 "''s2''" _ _ s2 ev2 "replicate 25 ''word''" board0 "''red''"]
      e j2 tn by auto
  from b have b': "\<exists>g'. activeGames s1 ''K'' = Some g' \<and> colors g' = board0 \<and> currentTeam g' = ''red''"
    by (auto simp: server2_team fresh1_fields)
  show ?thesis
    using m a b' c server2_games j1 j2 e tn by auto
qed

section \<open>Merging two snapshots in a row\<close>

lemma js_get_bools:
  "js_get (map JBool a) j = (if j < length a then JBool (a ! j) else JUndefined)"
  by (simp add: js_get_def)

lemma merge_cell_Some:
  "merge_cell (Some r) c j
     = Inr (if c = JHole then JHole else if truthy c then c else js_get r j)"
  by (simp add: merge_cell_def)

lemma mergeGameStates_bools:
  assumes "snap_revealed A = Some (map JBool a)"
  shows "\<exists>ys. merge_cells (Some (map JBool a)) (revealed S) 0 = Inr ys
       \<and> mergeGameStates (Some S) A = Inr (Inr (S\<lparr>revealed := ys\<rparr>))"
proof -
  obtain ys where "merge_cells (Some (map JBool a)) (revealed S) 0 = Inr ys"
    using merge_cells_Some_total by blast
  then show ?thesis using assms by (simp add: mergeGameStates_def)
qed

lemma merge_cells_twice:
  assumes "length a = length b"
    and "merge_cells (Some (map JBool a)) xs 0 = Inr ys1"
    and "merge_cells (Some (map JBool b)) ys1 0 = Inr ys2"
    and "merge_cells (Some (map JBool (flags_or a b))) xs 0 = Inr ys3"
  shows "ys2 = ys3"
proof (rule nth_equalityI)
  show "length ys2 = length ys3"
    using merge_cells_length [OF assms(2)] merge_cells_length [OF assms(3)]
      merge_cells_length [OF assms(4)] by simp
next
  fix j assume "j < length ys2"
  then have j: "j < length xs" "j < length ys1"
    using merge_cells_length [OF assms(2)] merge_cells_length [OF assms(3)] by simp_all
  have l: "length (flags_or a b) = length a" using assms(1) by (simp add: flags_or_def)
  have o: "j < length a \<Longrightarrow> flags_or a b ! j = (a ! j \<or> b ! j)"
    using assms(1) by (simp add: flags_or_def)
  have y1: "ys1 ! j = (if xs ! j = JHole then JHole else if truthy (xs ! j) then xs ! j
                       else js_get (map JBool a) j)"
    using merge_cells_nth [OF assms(2) j(1)] by (simp add: merge_cell_Some)
  have y2: "ys2 ! j = (if ys1 ! j = JHole then JHole else if truthy (ys1 ! j) then ys1 ! j
                       else js_get (map JBool b) j)"
    using merge_cells_nth [OF assms(3) j(2)] by (simp add: merge_cell_Some)
  have y3: "ys3 ! j = (if xs ! j = JHole then JHole else if truthy (xs ! j) then xs ! j
                       else js_get (map JBool (flags_or a b)) j)"
    using merge_cells_nth [OF assms(4) j(1)] by (simp add: merge_cell_Some)
  show "ys2 ! j = ys3 ! j"
  proof (cases "xs ! j = JHole \<or> truthy (xs ! j)")
    case True
    then show ?thesis unfolding y2 y3 y1 by auto
  next
    case False
    then have f1: "ys1 ! j = js_get (map JBool a) j" and f3: "ys3 ! j = js_get (map JBool (flags_or a b)) j"
      unfolding y1 y3 by simp_all
    show ?thesis
    proof (cases "j < length a")
      case True
      then show ?thesis unfolding y2 f1 f3 using assms(1) l o by (simp add: js_get_bools)
    next
      case False
      then show ?thesis unfolding y2 f1 f3 using assms(1) l by (simp add: js_get_bools)
    qed
  qed
qed

text \<open>
  Claim C9.  For every session state \<open>S\<close> and two snapshots \<open>A\<close>, \<open>B\<close> of 25 booleans,
  merging \<open>A\<close> and then \<open>B\<close> gives the same state as merging a snapshot of their
  elementwise disjunction, and the same state as merging \<open>B\<close> and then \<open>A\<close>.
\<close>

theorem merge_convergence:
  assumes "length a = 25" and "length b = 25"
    and "snap_revealed A = Some (map JBool a)" and "snap_revealed B = Some (map JBool b)"
    and "snap_revealed AB = Some (map JBool (flags_or a b))"
  shows "\<exists>S1 S2. mergeGameStates (Some S) A = Inr (Inr S1)
           \<and> mergeGameStates (Some S) B = Inr (Inr S2)
           \<and> mergeGameStates (Some S1) B = mergeGameStates (Some S) AB
           \<and> mergeGameStates (Some S2) A = mergeGameStates (Some S1) B"
proof -
  have ab: "length a = length b" and ba: "length b = length a" using assms(1,2) by simp_all
  have comm: "flags_or b a = flags_or a b"
    using ab by (auto simp: flags_or_def intro: nth_equalityI)
  obtain ya where ya: "merge_cells (Some (map JBool a)) (revealed S) 0 = Inr ya"
    and ma: "mergeGameStates (Some S) A = Inr (Inr (S\<lparr>revealed := ya\<rparr>))"
    using mergeGameStates_bools [OF assms(3)] by blast
  obtain yb where yb: "merge_cells (Some (map JBool b)) (revealed S) 0 = Inr yb"
    and mb: "mergeGameStates (Some S) B = Inr (Inr (S\<lparr>revealed := yb\<rparr>))"
    using mergeGameStates_bools [OF assms(4)] by blast
  obtain yab where yab: "merge_cells (Some (map JBool b)) (revealed (S\<lparr>revealed := ya\<rparr>)) 0 = Inr yab"
    and mab: "mergeGameStates (Some (S\<lparr>revealed := ya\<rparr>)) B
                = Inr (Inr (S\<lparr>revealed := ya, revealed := yab\<rparr>))"
    using mergeGameStates_bools [OF assms(4)] by blast
  obtain yba where yba: "merge_cells (Some (map JBool a)) (revealed (S\<lparr>revealed := yb\<rparr>)) 0 = Inr yba"
    and mba: "mergeGameStates (Some (S\<lparr>revealed := yb\<rparr>)) A
                = Inr (Inr (S\<lparr>revealed := yb, revealed := yba\<rparr>))"
    using mergeGameStates_bools [OF assms(3)] by blast
  obtain yo where yo: "merge_cells (Some (map JBool (flags_or a b))) (revealed S) 0 = Inr yo"
    and mo: "mergeGameStates (Some S) AB = Inr (Inr (S\<lparr>revealed := yo\<rparr>))"
    using mergeGameStates_bools [OF assms(5)] by blast
  have e1: "yab = yo"
    using merge_cells_twice [OF ab ya _ yo] yab by simp
  have e2: "yba = yo"
    using merge_cells_twice [OF ba yb _ yo [folded comm]] yba by simp
  show ?thesis
    using ma mb mab mba mo e1 e2 by simp
qed

text \<open>
  On a session whose \<open>revealed\<close> has 27 cells with a hole, merging \<open>flags1\<close> and then
  \<open>flags2\<close> gives what merging their disjunction gives.
\<close>

theorem merge_convergence_witness:
  "length flags1 = 25 \<and> length flags2 = 25
   \<and> snap_revealed (snapshot_of flags1) = Some (map JBool flags1)
   \<and> snap_revealed snap_blue = Some (map JBool flags2)
   \<and> snap_revealed (snapshot_of (flags_or flags1 flags2)) = Some (map JBool (flags_or flags1 flags2))
   \<and> (\<exists>S1 S2. mergeGameStates (Some game_holes) (snapshot_of flags1) = Inr (Inr S1)
         \<and> mergeGameStates (Some game_holes) snap_blue = Inr (Inr S2)
         \<and> mergeGameStates (Some S1) snap_blue
             = mergeGameStates (Some game_holes) (snapshot_of (flags_or flags1 flags2))
         \<and> mergeGameStates (Some S2) (snapshot_of flags1)
             = mergeGameStates (Some S1) snap_blue)"
proof -
  have l: "length flags1 = 25" "length flags2 = 25" by (simp_all add: flags1_def flags2_def)
  have r: "snap_revealed (snapshot_of flags1) = Some (map JBool flags1)"
    "snap_revealed snap_blue = Some (map JBool flags2)"
    "snap_revealed (snapshot_of (flags_or flags1 flags2)) = Some (map JBool (flags_or flags1 flags2))"
    by (simp_all add: snapshot_of_def snap_blue_def)
  show ?thesis using merge_convergence [OF l r, of game_holes] l r by blast
qed

section \<open>Disconnect\<close>

lemma leaveCurrentGame_joined:
  assumes "currentGame s sid = Some key" and "key \<noteq> []" and "activeGames s key = Some g"
  shows "leaveCurrentGame now sid s
     = s\<lparr>activeGames := (activeGames s)(key \<mapsto>
            g\<lparr>players := players g - {sid},
               lastActivity := (if players g - {sid} = {} then now else lastActivity g)\<rparr>),
          currentGame := (currentGame s)(sid := None)\<rparr>"
  using assms by (simp add: leaveCurrentGame_def Let_def)

text \<open>
  Claim C10 as stated fails: when the last connection leaves, \<open>leaveCurrentGame\<close>
  writes the clock into \<open>lastActivity\<close>.  The connection \<open>s1\<close> is the only player
  of the session of \<open>server1\<close>; its disconnect at time 9 changes \<open>lastActivity\<close> from
  1 to 9.
\<close>

theorem disconnect_frame_counterexample:
  "currentGame server1 ''s1'' = Some ''K'' \<and> activeGames server1 ''K'' = Some fresh1
   \<and> players fresh1 = {''s1''} \<and> lastActivity fresh1 = 1
   \<and> activeGames (fst (disconnect 9 ''s1'' server1)) ''K''
       = Some (fresh1\<lparr>players := {}, lastActivity := 9\<rparr>)
   \<and> lastActivity (fresh1\<lparr>players := {}, lastActivity := 9\<rparr>) = 9"
proof -
  have k: "''K'' \<noteq> []" by simp
  show ?thesis
    using leaveCurrentGame_joined [OF server1_cur k server1_games, of 9] server1_cur server1_games
    by (simp add: disconnect_def fresh1_more)
qed

text \<open>
  Claim C10 amended.  The disconnect of a connection joined to the session of a
  non-empty key removes the connection from the session's players and leaves words,
  board, reveal flags, current team and derived fields unchanged; \<open>lastActivity\<close> is
  unchanged while other players remain and is set to the time of the disconnect
  when the players set becomes empty.  Every other session is unchanged, and nothing
  is sent.
\<close>

theorem disconnect_frame:
  assumes "currentGame s sid = Some key" and "key \<noteq> []" and "activeGames s key = Some g"
  shows "activeGames (fst (disconnect now sid s)) key
           = Some (g\<lparr>players := players g - {sid},
                     lastActivity := (if players g - {sid} = {} then now else lastActivity g)\<rparr>)
       \<and> (\<forall>k. k \<noteq> key \<longrightarrow> activeGames (fst (disconnect now sid s)) k = activeGames s k)
       \<and> snd (disconnect now sid s) = []"
  using leaveCurrentGame_joined [OF assms, of now] by (simp add: disconnect_def)

text \<open>With two players attached, the disconnect of one leaves \<open>lastActivity\<close> as it was.\<close>

theorem disconnect_frame_witness:
  "currentGame two_players ''s2'' = Some ''K'' \<and> ''K'' \<noteq> []
   \<and> activeGames two_players ''K'' = Some (fresh1\<lparr>players := {''s1'', ''s2''}\<rparr>)
   \<and> activeGames (fst (disconnect 9 ''s2'' two_players)) ''K''
       = Some (fresh1\<lparr>players := {''s1''}, lastActivity := 1\<rparr>)
   \<and> snd (disconnect 9 ''s2'' two_players) = []"
proof -
  have c: "currentGame two_players ''s2'' = Some ''K''" by (simp add: two_players_def)
  have k: "''K'' \<noteq> []" by simp
  have g: "activeGames two_players ''K'' = Some (fresh1\<lparr>players := {''s1'', ''s2''}\<rparr>)"
    by (simp add: two_players_def)
  have p: "{''s1'', ''s2''} - {''s2''} = {''s1''}" by auto
  show ?thesis
    using disconnect_frame [OF c k g, of 9] c g
    by (simp add: fresh1_more p)
qed

end
